theory Spec2Isabelle
  imports Main "HOL-Library.Word"
begin

unbundle bit_operations_syntax

section \<open>Machine types and the table in memory\<close>

text \<open>
  The model follows \<^verbatim>\<open>drivers/acpi/pptt.c\<close> on an LP64 kernel: \<^verbatim>\<open>u8\<close>,
  \<^verbatim>\<open>u16\<close>, \<^verbatim>\<open>u32\<close> are words of that width, \<^verbatim>\<open>int\<close> is a 32-bit word
  read through \<open>sint\<close> (the kernel is built with wrapping signed arithmetic),
  \<^verbatim>\<open>size_t\<close> and \<^verbatim>\<open>unsigned long\<close> have 64 bits.

  A pointer into the table is its byte offset from \<^verbatim>\<open>table_hdr\<close>, an
  \<open>int\<close> (pointer arithmetic with a negative \<^verbatim>\<open>int\<close> can step below the
  table); the address space is taken to be large enough that no address
  computed from the table wraps. \<^verbatim>\<open>NULL\<close> is \<open>None\<close>.
\<close>

type_synonym u8 = "8 word"
type_synonym u16 = "16 word"
type_synonym u32 = "32 word"
type_synonym s32 = "32 word"

text \<open>
  \<^verbatim>\<open>struct acpi_table_header *table_hdr\<close>: the \<^verbatim>\<open>length\<close> field of the header
  and the bytes of memory starting at the table's first byte. Memory does not
  end at \<open>tbl_length\<close>: what lies behind the table is whatever \<open>mem\<close> holds
  there.
\<close>

record acpi_table_header =
  tbl_length :: u32
  mem :: "int \<Rightarrow> u8"

definition rd8 :: "acpi_table_header \<Rightarrow> int \<Rightarrow> u8" where
  "rd8 t a = mem t a"

definition rd16 :: "acpi_table_header \<Rightarrow> int \<Rightarrow> u16" where
  "rd16 t a = word_of_nat (unat (mem t a) + 256 * unat (mem t (a + 1)))"

definition rd32 :: "acpi_table_header \<Rightarrow> int \<Rightarrow> u32" where
  "rd32 t a = word_of_nat (unat (mem t a) + 256 * unat (mem t (a + 1))
                 + 65536 * unat (mem t (a + 2)) + 16777216 * unat (mem t (a + 3)))"

subsection \<open>Declarations of the ACPI headers\<close>

text \<open>
  Modelled from the spec: the struct declarations and constants of
  \<^verbatim>\<open>include/acpi/actbl.h\<close>, \<^verbatim>\<open>include/acpi/actbl1.h\<close> (the PPTT part) and
  \<^verbatim>\<open>include/linux/cacheinfo.h\<close> are not part of the source tree. The fields
  are those of the data model of the specification (record header, processor
  record, cache record); their byte layout and the numeric values of the
  constants are those of the ACPI 6.2 PPTT definition the source is written
  against, little-endian (there the length of a record is one byte; the
  properties below do not depend on its width):

  \<^item> \<^verbatim>\<open>struct acpi_subtable_header { u8 type; u8 length; }\<close>, 2 bytes;
  \<^item> \<^verbatim>\<open>struct acpi_table_pptt\<close> is the 36-byte table header;
  \<^item> \<^verbatim>\<open>struct acpi_pptt_processor { header; u16 reserved; u32 flags;
     u32 parent; u32 acpi_processor_id; u32 number_of_priv_resources; }\<close>, 20 bytes;
  \<^item> \<^verbatim>\<open>struct acpi_pptt_cache { header; u16 reserved; u32 flags;
     u32 next_level_of_cache; u32 size; u32 number_of_sets; u8 associativity;
     u8 attributes; u16 line_size; }\<close>, 24 bytes.
\<close>

definition sizeof_acpi_subtable_header :: int where
  "sizeof_acpi_subtable_header = 2"

definition sizeof_acpi_table_pptt :: int where
  "sizeof_acpi_table_pptt = 36"

definition sizeof_acpi_pptt_processor :: int where
  "sizeof_acpi_pptt_processor = 20"

text \<open>Modelled from the spec: the fields of \<^verbatim>\<open>struct acpi_subtable_header\<close> (absent header).\<close>

definition sub_type :: "acpi_table_header \<Rightarrow> int \<Rightarrow> u8" where
  "sub_type t e = rd8 t e"

definition sub_length :: "acpi_table_header \<Rightarrow> int \<Rightarrow> u8" where
  "sub_length t e = rd8 t (e + 1)"

text \<open>Modelled from the spec: the fields of \<^verbatim>\<open>struct acpi_pptt_processor\<close> (absent header).\<close>

definition proc_flags :: "acpi_table_header \<Rightarrow> int \<Rightarrow> u32" where
  "proc_flags t n = rd32 t (n + 4)"

definition proc_parent :: "acpi_table_header \<Rightarrow> int \<Rightarrow> u32" where
  "proc_parent t n = rd32 t (n + 8)"

definition proc_acpi_processor_id :: "acpi_table_header \<Rightarrow> int \<Rightarrow> u32" where
  "proc_acpi_processor_id t n = rd32 t (n + 12)"

definition proc_number_of_priv_resources :: "acpi_table_header \<Rightarrow> int \<Rightarrow> u32" where
  "proc_number_of_priv_resources t n = rd32 t (n + 16)"

text \<open>Modelled from the spec: the fields of \<^verbatim>\<open>struct acpi_pptt_cache\<close> (absent header).\<close>

definition cache_flags :: "acpi_table_header \<Rightarrow> int \<Rightarrow> u32" where
  "cache_flags t c = rd32 t (c + 4)"

definition cache_next_level_of_cache :: "acpi_table_header \<Rightarrow> int \<Rightarrow> u32" where
  "cache_next_level_of_cache t c = rd32 t (c + 8)"

definition cache_size :: "acpi_table_header \<Rightarrow> int \<Rightarrow> u32" where
  "cache_size t c = rd32 t (c + 12)"

definition cache_number_of_sets :: "acpi_table_header \<Rightarrow> int \<Rightarrow> u32" where
  "cache_number_of_sets t c = rd32 t (c + 16)"

definition cache_associativity :: "acpi_table_header \<Rightarrow> int \<Rightarrow> u8" where
  "cache_associativity t c = rd8 t (c + 20)"

definition cache_attributes :: "acpi_table_header \<Rightarrow> int \<Rightarrow> u8" where
  "cache_attributes t c = rd8 t (c + 21)"

definition cache_line_size :: "acpi_table_header \<Rightarrow> int \<Rightarrow> u16" where
  "cache_line_size t c = rd16 t (c + 22)"

text \<open>Modelled from the spec: the constants of the absent ACPI header.\<close>

definition ACPI_PPTT_TYPE_PROCESSOR :: u8 where "ACPI_PPTT_TYPE_PROCESSOR = 0"
definition ACPI_PPTT_TYPE_CACHE :: u8 where "ACPI_PPTT_TYPE_CACHE = 1"

definition ACPI_PPTT_PHYSICAL_PACKAGE :: u32 where "ACPI_PPTT_PHYSICAL_PACKAGE = 1"

definition ACPI_PPTT_SIZE_PROPERTY_VALID :: u32 where "ACPI_PPTT_SIZE_PROPERTY_VALID = 1"
definition ACPI_PPTT_NUMBER_OF_SETS_VALID :: u32 where "ACPI_PPTT_NUMBER_OF_SETS_VALID = 2"
definition ACPI_PPTT_ASSOCIATIVITY_VALID :: u32 where "ACPI_PPTT_ASSOCIATIVITY_VALID = 4"
definition ACPI_PPTT_ALLOCATION_TYPE_VALID :: u32 where "ACPI_PPTT_ALLOCATION_TYPE_VALID = 8"
definition ACPI_PPTT_CACHE_TYPE_VALID :: u32 where "ACPI_PPTT_CACHE_TYPE_VALID = 16"
definition ACPI_PPTT_WRITE_POLICY_VALID :: u32 where "ACPI_PPTT_WRITE_POLICY_VALID = 32"
definition ACPI_PPTT_LINE_SIZE_VALID :: u32 where "ACPI_PPTT_LINE_SIZE_VALID = 64"

definition ACPI_PPTT_MASK_ALLOCATION_TYPE :: u8 where "ACPI_PPTT_MASK_ALLOCATION_TYPE = 0x03"
definition ACPI_PPTT_MASK_CACHE_TYPE :: u8 where "ACPI_PPTT_MASK_CACHE_TYPE = 0x0C"
definition ACPI_PPTT_MASK_WRITE_POLICY :: u8 where "ACPI_PPTT_MASK_WRITE_POLICY = 0x10"

definition ACPI_PPTT_CACHE_READ_ALLOCATE :: u8 where "ACPI_PPTT_CACHE_READ_ALLOCATE = 0x0"
definition ACPI_PPTT_CACHE_WRITE_ALLOCATE :: u8 where "ACPI_PPTT_CACHE_WRITE_ALLOCATE = 0x01"
definition ACPI_PPTT_CACHE_RW_ALLOCATE :: u8 where "ACPI_PPTT_CACHE_RW_ALLOCATE = 0x02"
definition ACPI_PPTT_CACHE_RW_ALLOCATE_ALT :: u8 where "ACPI_PPTT_CACHE_RW_ALLOCATE_ALT = 0x03"

definition ACPI_PPTT_CACHE_TYPE_DATA :: u8 where "ACPI_PPTT_CACHE_TYPE_DATA = 0x0"
definition ACPI_PPTT_CACHE_TYPE_INSTR :: u8 where "ACPI_PPTT_CACHE_TYPE_INSTR = 0x04"
definition ACPI_PPTT_CACHE_TYPE_UNIFIED :: u8 where "ACPI_PPTT_CACHE_TYPE_UNIFIED = 0x08"

definition ACPI_PPTT_CACHE_POLICY_WB :: u8 where "ACPI_PPTT_CACHE_POLICY_WB = 0x0"
definition ACPI_PPTT_CACHE_POLICY_WT :: u8 where "ACPI_PPTT_CACHE_POLICY_WT = 0x10"

text \<open>Modelled from the spec: the constants and the destination record of the absent
  \<^verbatim>\<open>include/linux/cacheinfo.h\<close>, and \<^verbatim>\<open>ENOENT\<close>.\<close>

definition CACHE_WRITE_THROUGH :: u32 where "CACHE_WRITE_THROUGH = 1"
definition CACHE_WRITE_BACK :: u32 where "CACHE_WRITE_BACK = 2"
definition CACHE_WRITE_POLICY_MASK :: u32 where
  "CACHE_WRITE_POLICY_MASK = CACHE_WRITE_THROUGH OR CACHE_WRITE_BACK"
definition CACHE_READ_ALLOCATE :: u32 where "CACHE_READ_ALLOCATE = 4"
definition CACHE_WRITE_ALLOCATE :: u32 where "CACHE_WRITE_ALLOCATE = 8"
definition CACHE_ALLOCATE_POLICY_MASK :: u32 where
  "CACHE_ALLOCATE_POLICY_MASK = CACHE_READ_ALLOCATE OR CACHE_WRITE_ALLOCATE"

definition ENOENT :: s32 where "ENOENT = 2"

datatype cache_type =
  CACHE_TYPE_NOCACHE | CACHE_TYPE_INST | CACHE_TYPE_DATA | CACHE_TYPE_SEPARATE | CACHE_TYPE_UNIFIED

record cacheinfo =
  ci_type :: cache_type
  ci_level :: u32
  coherency_line_size :: u32
  number_of_sets :: u32
  ways_of_associativity :: u32
  physical_line_partition :: u32
  size :: u32
  attributes :: u32
  firmware_node :: "int option"

section \<open>The subtable resolver\<close>

text \<open>
  \<^verbatim>\<open>fetch_pptt_subtable\<close>, with the bytes it dereferences through \<^verbatim>\<open>entry\<close>
  logged beside the result (the second component; \<^verbatim>\<open>entry->length\<close> is the
  only field it reads). The comparison with \<^verbatim>\<open>sizeof\<close> and the sum
  \<^verbatim>\<open>pptt_ref + sizeof(...)\<close> are computed in the 64-bit \<^verbatim>\<open>size_t\<close>, where they
  cannot wrap; \<^verbatim>\<open>pptt_ref + entry->length\<close> is a \<^verbatim>\<open>u32\<close> sum and wraps.
\<close>

definition fetch_pptt_subtable_rd ::
  "acpi_table_header \<Rightarrow> u32 \<Rightarrow> int option \<times> int list" where
  "fetch_pptt_subtable_rd table_hdr pptt_ref =
     (if uint pptt_ref < sizeof_acpi_subtable_header then (None, [])
      else if uint pptt_ref + sizeof_acpi_subtable_header > uint (tbl_length table_hdr)
      then (None, [])
      else
        let entry = uint pptt_ref;
            entry_length = sub_length table_hdr entry;
            reads = [entry + 1]
        in if pptt_ref + ucast entry_length > tbl_length table_hdr then (None, reads)
           else (Some entry, reads))"

definition fetch_pptt_subtable :: "acpi_table_header \<Rightarrow> u32 \<Rightarrow> int option" where
  "fetch_pptt_subtable table_hdr pptt_ref = fst (fetch_pptt_subtable_rd table_hdr pptt_ref)"

definition fetch_pptt_node :: "acpi_table_header \<Rightarrow> u32 \<Rightarrow> int option" where
  "fetch_pptt_node table_hdr pptt_ref = fetch_pptt_subtable table_hdr pptt_ref"

definition fetch_pptt_cache :: "acpi_table_header \<Rightarrow> u32 \<Rightarrow> int option" where
  "fetch_pptt_cache table_hdr pptt_ref = fetch_pptt_subtable table_hdr pptt_ref"

text \<open>
  \<^verbatim>\<open>acpi_get_pptt_resource\<close>. The \<^verbatim>\<open>int\<close> index is compared with the \<^verbatim>\<open>u32\<close>
  count as an unsigned number; the pointer \<^verbatim>\<open>ref\<close> advances by the signed index.
\<close>

definition acpi_get_pptt_resource :: "acpi_table_header \<Rightarrow> int \<Rightarrow> s32 \<Rightarrow> int option" where
  "acpi_get_pptt_resource table_hdr node resource =
     (if resource \<ge> proc_number_of_priv_resources table_hdr node then None
      else
        let ref = node + sizeof_acpi_pptt_processor + 4 * sint resource
        in fetch_pptt_subtable table_hdr (rd32 table_hdr ref))"

section \<open>Applying a cache record to a cache-info record\<close>

definition update_cache_properties ::
  "cacheinfo \<Rightarrow> acpi_table_header \<Rightarrow> int \<Rightarrow> int option \<Rightarrow> cacheinfo" where
  "update_cache_properties this_leaf t found_cache cpu_node =
     (let l = this_leaf\<lparr>firmware_node := cpu_node\<rparr>;
          l = (if cache_flags t found_cache AND ACPI_PPTT_SIZE_PROPERTY_VALID \<noteq> 0
               then l\<lparr>size := cache_size t found_cache\<rparr> else l);
          l = (if cache_flags t found_cache AND ACPI_PPTT_LINE_SIZE_VALID \<noteq> 0
               then l\<lparr>coherency_line_size := ucast (cache_line_size t found_cache)\<rparr> else l);
          l = (if cache_flags t found_cache AND ACPI_PPTT_NUMBER_OF_SETS_VALID \<noteq> 0
               then l\<lparr>number_of_sets := cache_number_of_sets t found_cache\<rparr> else l);
          l = (if cache_flags t found_cache AND ACPI_PPTT_ASSOCIATIVITY_VALID \<noteq> 0
               then l\<lparr>ways_of_associativity := ucast (cache_associativity t found_cache)\<rparr>
               else l);
          l = (if cache_flags t found_cache AND ACPI_PPTT_WRITE_POLICY_VALID \<noteq> 0
               then (let p = cache_attributes t found_cache AND ACPI_PPTT_MASK_WRITE_POLICY
                     in if p = ACPI_PPTT_CACHE_POLICY_WT
                        then l\<lparr>attributes := CACHE_WRITE_THROUGH\<rparr>
                        else if p = ACPI_PPTT_CACHE_POLICY_WB
                        then l\<lparr>attributes := CACHE_WRITE_BACK\<rparr>
                        else l)
               else l);
          l = (if cache_flags t found_cache AND ACPI_PPTT_ALLOCATION_TYPE_VALID \<noteq> 0
               then (let a = cache_attributes t found_cache AND ACPI_PPTT_MASK_ALLOCATION_TYPE
                     in if a = ACPI_PPTT_CACHE_READ_ALLOCATE
                        then l\<lparr>attributes := attributes l OR CACHE_READ_ALLOCATE\<rparr>
                        else if a = ACPI_PPTT_CACHE_WRITE_ALLOCATE
                        then l\<lparr>attributes := attributes l OR CACHE_WRITE_ALLOCATE\<rparr>
                        else if a = ACPI_PPTT_CACHE_RW_ALLOCATE
                                \<or> a = ACPI_PPTT_CACHE_RW_ALLOCATE_ALT
                        then l\<lparr>attributes := attributes l
                                  OR (CACHE_READ_ALLOCATE OR CACHE_WRITE_ALLOCATE)\<rparr>
                        else l)
               else l)
      in l)"

section \<open>Cache chains and cache levels\<close>

text \<open>
  What \<^verbatim>\<open>acpi_pptt_walk_cache\<close> does to its surroundings: the pointer
  \<^verbatim>\<open>*found\<close>, the number of \<^verbatim>\<open>pr_err\<close> diagnostics emitted so far, and, as
  a ghost field, the records assigned to \<^verbatim>\<open>*found\<close> in the order of the
  assignments (one entry for each time the level/type test succeeds).
\<close>

record walk_state =
  found :: "int option"
  errs :: nat
  matched :: "int list"

text \<open>
  The loop of \<^verbatim>\<open>acpi_pptt_walk_cache\<close>, entered with \<^verbatim>\<open>cache\<close> not
  \<^verbatim>\<open>NULL\<close>. A walk that never ends has the value \<open>None\<close>.
\<close>

partial_function (option) acpi_pptt_walk_cache_loop ::
  "acpi_table_header \<Rightarrow> s32 \<Rightarrow> int \<Rightarrow> walk_state \<Rightarrow> s32 \<Rightarrow> s32
     \<Rightarrow> (s32 \<times> walk_state) option" where
  "acpi_pptt_walk_cache_loop table_hdr local_level cache st level type =
     (let local_level = local_level + 1;
          st = (if local_level = level
                   \<and> cache_flags table_hdr cache AND ACPI_PPTT_CACHE_TYPE_VALID \<noteq> 0
                   \<and> ucast (cache_attributes table_hdr cache AND ACPI_PPTT_MASK_CACHE_TYPE) = type
                then st\<lparr>errs := (if found st \<noteq> None \<and> Some cache \<noteq> found st
                                   then errs st + 1 else errs st),
                        found := Some cache,
                        matched := matched st @ [cache]\<rparr>
                else st)
      in case fetch_pptt_cache table_hdr (cache_next_level_of_cache table_hdr cache) of
           None \<Rightarrow> Some (local_level, st)
         | Some next_cache \<Rightarrow>
             acpi_pptt_walk_cache_loop table_hdr local_level next_cache st level type)"

declare acpi_pptt_walk_cache_loop.simps [code]

definition acpi_pptt_walk_cache ::
  "acpi_table_header \<Rightarrow> s32 \<Rightarrow> int \<Rightarrow> walk_state \<Rightarrow> s32 \<Rightarrow> s32
     \<Rightarrow> (s32 \<times> walk_state) option" where
  "acpi_pptt_walk_cache table_hdr local_level res st level type =
     (if sub_type table_hdr res \<noteq> ACPI_PPTT_TYPE_CACHE then Some (0, st)
      else acpi_pptt_walk_cache_loop table_hdr local_level res st level type)"

text \<open>
  The state of the loop of \<^verbatim>\<open>acpi_find_cache_level\<close>: \<^verbatim>\<open>number_of_levels\<close>,
  what hangs on \<^verbatim>\<open>ret\<close>, and as a ghost field the value each call of
  \<^verbatim>\<open>acpi_pptt_walk_cache\<close> returned, in order.
\<close>

record level_state =
  number_of_levels :: s32
  ret :: walk_state
  depths :: "s32 list"

partial_function (option) acpi_find_cache_level_loop ::
  "acpi_table_header \<Rightarrow> int \<Rightarrow> s32 \<Rightarrow> s32 \<Rightarrow> s32 \<Rightarrow> s32 \<Rightarrow> level_state
     \<Rightarrow> level_state option" where
  "acpi_find_cache_level_loop table_hdr cpu_node starting_level level type resource ls =
     (case acpi_get_pptt_resource table_hdr cpu_node resource of
        None \<Rightarrow> Some ls
      | Some res \<Rightarrow>
          (case acpi_pptt_walk_cache table_hdr starting_level res (ret ls) level type of
             None \<Rightarrow> None
           | Some (local_level, st) \<Rightarrow>
               acpi_find_cache_level_loop table_hdr cpu_node starting_level level type
                 (resource + 1)
                 \<lparr>number_of_levels = (if number_of_levels ls <s local_level then local_level
                                       else number_of_levels ls),
                  ret = st,
                  depths = depths ls @ [local_level]\<rparr>))"

declare acpi_find_cache_level_loop.simps [code]

text \<open>
  The result of \<^verbatim>\<open>acpi_find_cache_level\<close>: the returned pointer and the
  value left in \<^verbatim>\<open>*starting_level\<close>, with the diagnostics and ghost fields.
\<close>

record level_result =
  fcl_ret :: "int option"
  fcl_level :: s32
  fcl_errs :: nat
  fcl_matched :: "int list"
  fcl_depths :: "s32 list"

definition acpi_find_cache_level ::
  "acpi_table_header \<Rightarrow> int \<Rightarrow> s32 \<Rightarrow> s32 \<Rightarrow> s32 \<Rightarrow> level_result option" where
  "acpi_find_cache_level table_hdr cpu_node starting_level level type =
     (case acpi_find_cache_level_loop table_hdr cpu_node starting_level level type 0
             \<lparr>number_of_levels = starting_level,
              ret = \<lparr>found = None, errs = 0, matched = []\<rparr>,
              depths = []\<rparr> of
        None \<Rightarrow> None
      | Some ls \<Rightarrow>
          Some \<lparr>fcl_ret = found (ret ls),
                fcl_level = (if starting_level <s number_of_levels ls then number_of_levels ls
                             else starting_level),
                fcl_errs = errs (ret ls),
                fcl_matched = matched (ret ls),
                fcl_depths = depths ls\<rparr>)"

text \<open>The \<^verbatim>\<open>do ... while (cpu_node)\<close> of \<^verbatim>\<open>acpi_process_node\<close>.\<close>

partial_function (option) acpi_process_node_loop ::
  "acpi_table_header \<Rightarrow> int \<Rightarrow> s32 \<Rightarrow> s32 option" where
  "acpi_process_node_loop table_hdr cpu_node total_levels =
     (case acpi_find_cache_level table_hdr cpu_node total_levels 0 0 of
        None \<Rightarrow> None
      | Some r \<Rightarrow>
          (case fetch_pptt_node table_hdr (proc_parent table_hdr cpu_node) of
             None \<Rightarrow> Some (fcl_level r)
           | Some parent_node \<Rightarrow> acpi_process_node_loop table_hdr parent_node (fcl_level r)))"

declare acpi_process_node_loop.simps [code]

definition acpi_process_node :: "acpi_table_header \<Rightarrow> int \<Rightarrow> s32 option" where
  "acpi_process_node table_hdr cpu_node = acpi_process_node_loop table_hdr cpu_node 0"

section \<open>The processor tree\<close>

definition table_end :: "acpi_table_header \<Rightarrow> int" where
  "table_end table_hdr = uint (tbl_length table_hdr)"

text \<open>
  The loop of \<^verbatim>\<open>acpi_pptt_leaf_node\<close>; \<^verbatim>\<open>return 0\<close> is \<open>False\<close>,
  \<^verbatim>\<open>return 1\<close> is \<open>True\<close>.
\<close>

partial_function (option) acpi_pptt_leaf_node_loop ::
  "acpi_table_header \<Rightarrow> u32 \<Rightarrow> int \<Rightarrow> bool option" where
  "acpi_pptt_leaf_node_loop table_hdr node_entry entry =
     (if entry + sizeof_acpi_subtable_header < table_end table_hdr
      then if sub_type table_hdr entry = ACPI_PPTT_TYPE_PROCESSOR
                \<and> proc_parent table_hdr entry = node_entry
           then Some False
           else acpi_pptt_leaf_node_loop table_hdr node_entry
                  (entry + uint (sub_length table_hdr entry))
      else Some True)"

declare acpi_pptt_leaf_node_loop.simps [code]

definition acpi_pptt_leaf_node :: "acpi_table_header \<Rightarrow> int \<Rightarrow> bool option" where
  "acpi_pptt_leaf_node table_hdr node =
     acpi_pptt_leaf_node_loop table_hdr (word_of_int node) sizeof_acpi_table_pptt"

text \<open>
  The loop of \<^verbatim>\<open>acpi_find_processor_node\<close>. The leaf test is the last operand
  of \<^verbatim>\<open>&&\<close>: it runs only for a processor record with the requested id.
\<close>

partial_function (option) acpi_find_processor_node_loop ::
  "acpi_table_header \<Rightarrow> u32 \<Rightarrow> int \<Rightarrow> int option option" where
  "acpi_find_processor_node_loop table_hdr acpi_cpu_id entry =
     (if entry + sizeof_acpi_subtable_header < table_end table_hdr
      then if sub_length table_hdr entry = 0 then Some None
           else if sub_type table_hdr entry = ACPI_PPTT_TYPE_PROCESSOR
                     \<and> acpi_cpu_id = proc_acpi_processor_id table_hdr entry
           then (case acpi_pptt_leaf_node table_hdr entry of
                   None \<Rightarrow> None
                 | Some leaf \<Rightarrow>
                     if leaf then Some (Some entry)
                     else acpi_find_processor_node_loop table_hdr acpi_cpu_id
                            (entry + uint (sub_length table_hdr entry)))
           else acpi_find_processor_node_loop table_hdr acpi_cpu_id
                  (entry + uint (sub_length table_hdr entry))
      else Some None)"

declare acpi_find_processor_node_loop.simps [code]

definition acpi_find_processor_node :: "acpi_table_header \<Rightarrow> u32 \<Rightarrow> int option option" where
  "acpi_find_processor_node table_hdr acpi_cpu_id =
     acpi_find_processor_node_loop table_hdr acpi_cpu_id sizeof_acpi_table_pptt"

definition acpi_find_cache_levels :: "acpi_table_header \<Rightarrow> u32 \<Rightarrow> s32 option" where
  "acpi_find_cache_levels table_hdr acpi_cpu_id =
     (case acpi_find_processor_node table_hdr acpi_cpu_id of
        None \<Rightarrow> None
      | Some None \<Rightarrow> Some 0
      | Some (Some cpu) \<Rightarrow> acpi_process_node table_hdr cpu)"

fun acpi_cache_type :: "cache_type \<Rightarrow> u8" where
  "acpi_cache_type CACHE_TYPE_DATA = ACPI_PPTT_CACHE_TYPE_DATA"
| "acpi_cache_type CACHE_TYPE_INST = ACPI_PPTT_CACHE_TYPE_INSTR"
| "acpi_cache_type _ = ACPI_PPTT_CACHE_TYPE_UNIFIED"

text \<open>
  The loop of \<^verbatim>\<open>acpi_find_cache_node\<close>, entered with \<^verbatim>\<open>cpu_node\<close> not
  \<^verbatim>\<open>NULL\<close> and \<^verbatim>\<open>found\<close> still \<^verbatim>\<open>NULL\<close>; the result is \<^verbatim>\<open>found\<close> and the
  processor left in \<^verbatim>\<open>*node\<close>.
\<close>

partial_function (option) acpi_find_cache_node_loop ::
  "acpi_table_header \<Rightarrow> int \<Rightarrow> s32 \<Rightarrow> s32 \<Rightarrow> s32 \<Rightarrow> (int option \<times> int option) option" where
  "acpi_find_cache_node_loop table_hdr cpu_node total_levels level acpi_type =
     (case acpi_find_cache_level table_hdr cpu_node total_levels level acpi_type of
        None \<Rightarrow> None
      | Some r \<Rightarrow>
          (case fetch_pptt_node table_hdr (proc_parent table_hdr cpu_node) of
             None \<Rightarrow> Some (fcl_ret r, Some cpu_node)
           | Some parent_node \<Rightarrow>
               if fcl_ret r \<noteq> None then Some (fcl_ret r, Some cpu_node)
               else acpi_find_cache_node_loop table_hdr parent_node (fcl_level r)
                      level acpi_type))"

declare acpi_find_cache_node_loop.simps [code]

definition acpi_find_cache_node ::
  "acpi_table_header \<Rightarrow> u32 \<Rightarrow> cache_type \<Rightarrow> u32 \<Rightarrow> int option
     \<Rightarrow> (int option \<times> int option) option" where
  "acpi_find_cache_node table_hdr acpi_cpu_id type level node =
     (case acpi_find_processor_node table_hdr acpi_cpu_id of
        None \<Rightarrow> None
      | Some None \<Rightarrow> Some (None, node)
      | Some (Some cpu_node) \<Rightarrow>
          acpi_find_cache_node_loop table_hdr cpu_node 0 level (ucast (acpi_cache_type type)))"

section \<open>Topology tags\<close>

text \<open>
  \<^verbatim>\<open>acpi_find_processor_package_id\<close>. The loop runs while \<^verbatim>\<open>level\<close> is not
  zero and decrements it at each hop, so it ends after at most \<open>2 ^ 32\<close> hops
  whatever the parent links are.
\<close>

function acpi_find_processor_package_id ::
  "acpi_table_header \<Rightarrow> int option \<Rightarrow> s32 \<Rightarrow> u32 \<Rightarrow> int option" where
  "acpi_find_processor_package_id table_hdr cpu level flag =
     (case cpu of
        None \<Rightarrow> cpu
      | Some c \<Rightarrow>
          if level = 0 then cpu
          else if proc_flags table_hdr c AND flag \<noteq> 0 then cpu
          else (case fetch_pptt_node table_hdr (proc_parent table_hdr c) of
                  None \<Rightarrow> cpu
                | Some prev_node \<Rightarrow>
                    acpi_find_processor_package_id table_hdr (Some prev_node) (level - 1) flag))"
  by pat_completeness auto
termination
  by (relation "measure (\<lambda>(table_hdr, cpu, level, flag). unat level)")
     (simp_all add: unat_minus_one unat_gt_0)

declare acpi_find_processor_package_id.simps [simp del]

text \<open>
  What can go wrong in \<^verbatim>\<open>topology_get_acpi_cpu_tag\<close>: reading a field through a
  \<^verbatim>\<open>NULL\<close> pointer.
\<close>

datatype error = Null_dereference

text \<open>
  \<^verbatim>\<open>topology_get_acpi_cpu_tag\<close>; \<^verbatim>\<open>get_acpi_id_for_cpu\<close> belongs to the
  architecture and is a parameter. The result is the \<^verbatim>\<open>int\<close> returned.
\<close>

definition topology_get_acpi_cpu_tag ::
  "(nat \<Rightarrow> u32) \<Rightarrow> acpi_table_header \<Rightarrow> nat \<Rightarrow> s32 \<Rightarrow> u32 \<Rightarrow> (error + s32) option" where
  "topology_get_acpi_cpu_tag get_acpi_id_for_cpu table cpu level flag =
     (case acpi_find_processor_node table (get_acpi_id_for_cpu cpu) of
        None \<Rightarrow> None
      | Some None \<Rightarrow> Some (Inr (- ENOENT))
      | Some (Some leaf) \<Rightarrow>
          (case acpi_find_processor_package_id table (Some leaf) level flag of
             None \<Rightarrow> Some (Inl Null_dereference)
           | Some cpu_node \<Rightarrow>
               if level = 0 then Some (Inr (proc_acpi_processor_id table cpu_node))
               else Some (Inr (word_of_int cpu_node))))"

section \<open>Vocabulary of the properties\<close>

text \<open>
  The records of a table in the order in which the linear scans of
  \<^verbatim>\<open>acpi_pptt_leaf_node\<close> and \<^verbatim>\<open>acpi_find_processor_node\<close> meet them: the
  first one lies behind the table header, the next one \<^verbatim>\<open>length\<close> bytes
  behind the current one, as long as \<^verbatim>\<open>entry + 1\<close> lies below the end of the
  table. A record of length zero has no successor and ends the list.
\<close>

function pptt_entries_from :: "acpi_table_header \<Rightarrow> int \<Rightarrow> int list" where
  "pptt_entries_from t e =
     (if e + sizeof_acpi_subtable_header < table_end t
      then if sub_length t e = 0 then [e]
           else e # pptt_entries_from t (e + uint (sub_length t e))
      else [])"
  by pat_completeness auto
termination
proof (relation "measure (\<lambda>(t, e). nat (table_end t - e))")
  fix t :: acpi_table_header and e :: int
  assume "e + sizeof_acpi_subtable_header < table_end t" and "sub_length t e \<noteq> 0"
  moreover from \<open>sub_length t e \<noteq> 0\<close> have "0 < uint (sub_length t e)"
    by (simp add: word_greater_zero_iff [symmetric] word_less_def)
  ultimately show "((t, e + uint (sub_length t e)), (t, e))
      \<in> measure (\<lambda>(t, e). nat (table_end t - e))"
    by (simp add: sizeof_acpi_subtable_header_def)
qed simp

declare pptt_entries_from.simps [simp del]

definition pptt_entries :: "acpi_table_header \<Rightarrow> int list" where
  "pptt_entries t = pptt_entries_from t sizeof_acpi_table_pptt"

text \<open>
  The positions the scan of \<^verbatim>\<open>acpi_find_processor_node\<close> gets to: it starts
  behind the table header and moves on from a record of non-zero length that
  is not returned, that is, one that is not a processor record with the
  requested id, or one for which \<^verbatim>\<open>acpi_pptt_leaf_node\<close> returned 0.
\<close>

inductive find_scan_reaches :: "acpi_table_header \<Rightarrow> u32 \<Rightarrow> int \<Rightarrow> bool"
  for t :: acpi_table_header and acpi_cpu_id :: u32 where
  start: "find_scan_reaches t acpi_cpu_id sizeof_acpi_table_pptt"
| skip: "find_scan_reaches t acpi_cpu_id e
     \<Longrightarrow> e + sizeof_acpi_subtable_header < table_end t
     \<Longrightarrow> sub_length t e \<noteq> 0
     \<Longrightarrow> sub_type t e \<noteq> ACPI_PPTT_TYPE_PROCESSOR \<or> acpi_cpu_id \<noteq> proc_acpi_processor_id t e
     \<Longrightarrow> find_scan_reaches t acpi_cpu_id (e + uint (sub_length t e))"
| not_leaf: "find_scan_reaches t acpi_cpu_id e
     \<Longrightarrow> e + sizeof_acpi_subtable_header < table_end t
     \<Longrightarrow> sub_length t e \<noteq> 0
     \<Longrightarrow> acpi_pptt_leaf_node t e = Some False
     \<Longrightarrow> find_scan_reaches t acpi_cpu_id (e + uint (sub_length t e))"

text \<open>The position the linear scans move to from the record at \<open>e\<close>.\<close>

definition next_entry :: "acpi_table_header \<Rightarrow> int \<Rightarrow> int" where
  "next_entry t e = e + uint (sub_length t e)"

text \<open>
  A cache chain that ends: from record \<open>c\<close>, fewer than \<open>n\<close> links
  \<^verbatim>\<open>next_level_of_cache\<close> resolve before one does not.
\<close>

fun cache_chain_within :: "nat \<Rightarrow> acpi_table_header \<Rightarrow> int \<Rightarrow> bool" where
  "cache_chain_within 0 t c = False"
| "cache_chain_within (Suc n) t c =
     (case fetch_pptt_cache t (cache_next_level_of_cache t c) of
        None \<Rightarrow> True
      | Some next_cache \<Rightarrow> cache_chain_within n t next_cache)"

text \<open>
  The private resources of a processor record from index \<open>resource\<close> up to
  the first one that does not resolve: every cache record among them heads a
  chain that ends within \<open>n\<close> records.
\<close>

function resources_within :: "nat \<Rightarrow> acpi_table_header \<Rightarrow> int \<Rightarrow> s32 \<Rightarrow> bool" where
  "resources_within n t node resource =
     (case acpi_get_pptt_resource t node resource of
        None \<Rightarrow> True
      | Some res \<Rightarrow>
          (if sub_type t res = ACPI_PPTT_TYPE_CACHE then cache_chain_within n t res else True)
          \<and> resources_within n t node (resource + 1))"
  by pat_completeness auto
termination
proof (relation "measure (\<lambda>(n, t, node, resource).
          unat (proc_number_of_priv_resources t node) - unat resource)")
  fix n :: nat and t :: acpi_table_header and node :: int and resource :: s32 and res :: int
  assume "acpi_get_pptt_resource t node resource = Some res"
  then have "resource < proc_number_of_priv_resources t node"
    by (auto simp: acpi_get_pptt_resource_def split: if_splits)
  then have below: "unat resource < unat (proc_number_of_priv_resources t node)"
    by (simp add: word_less_nat_alt)
  moreover have "unat (proc_number_of_priv_resources t node) < 2 ^ 32"
    using unsigned_less [of "proc_number_of_priv_resources t node"] by simp
  ultimately have "unat resource + unat (1 :: s32) < 2 ^ LENGTH(32)"
    by simp
  then have "unat (resource + 1) = unat resource + 1"
    by (simp add: unat_add_lem [THEN iffD1])
  with below show "((n, t, node, resource + 1), (n, t, node, resource))
      \<in> measure (\<lambda>(n, t, node, resource).
            unat (proc_number_of_priv_resources t node) - unat resource)"
    by simp
qed simp

declare resources_within.simps [simp del]

text \<open>
  A parent chain that ends: from processor record \<open>node\<close>, fewer than \<open>n\<close>
  parent links resolve before one does not, and the cache chains of every
  record on the way end within \<open>m\<close> records.
\<close>

fun ancestors_within :: "nat \<Rightarrow> nat \<Rightarrow> acpi_table_header \<Rightarrow> int \<Rightarrow> bool" where
  "ancestors_within 0 m t node = False"
| "ancestors_within (Suc n) m t node =
     (resources_within m t node 0
      \<and> (case fetch_pptt_node t (proc_parent t node) of
           None \<Rightarrow> True
         | Some parent_node \<Rightarrow> ancestors_within n m t parent_node))"

text \<open>
  The parent of a processor record, resolved as \<^verbatim>\<open>fetch_pptt_node\<close> resolves
  it, and one hop of an ascent: to the parent, or nowhere when the parent link
  does not resolve.
\<close>

definition parent_of :: "acpi_table_header \<Rightarrow> int \<Rightarrow> int option" where
  "parent_of t n = fetch_pptt_node t (proc_parent t n)"

definition parent_step :: "acpi_table_header \<Rightarrow> int \<Rightarrow> int" where
  "parent_step t n = (case parent_of t n of None \<Rightarrow> n | Some p \<Rightarrow> p)"

text \<open>
  The record an ascent ends at, in the words of the specification: ascend
  through \<open>parent_of\<close> for at most \<open>k\<close> hops, or until the flags of the
  current record contain the stop flag, or until there is no parent,
  whichever comes first; the result is the last record visited.
\<close>

fun ascend :: "nat \<Rightarrow> acpi_table_header \<Rightarrow> u32 \<Rightarrow> int \<Rightarrow> int" where
  "ascend 0 t stop_flag n = n"
| "ascend (Suc k) t stop_flag n =
     (if proc_flags t n AND stop_flag \<noteq> 0 then n
      else case parent_of t n of
             None \<Rightarrow> n
           | Some p \<Rightarrow> ascend k t stop_flag p)"

text \<open>
  The records of the cache chain that starts at \<open>c\<close>, in the order of the
  links \<^verbatim>\<open>next_level_of_cache\<close>, at most \<open>n\<close> of them.
\<close>

fun cache_chain :: "nat \<Rightarrow> acpi_table_header \<Rightarrow> int \<Rightarrow> int list" where
  "cache_chain 0 t c = []"
| "cache_chain (Suc n) t c =
     c # (case fetch_pptt_cache t (cache_next_level_of_cache t c) of
            None \<Rightarrow> []
          | Some next_cache \<Rightarrow> cache_chain n t next_cache)"

text \<open>
  A cache record matches the requested type when its cache type is valid and
  equal to it.
\<close>

definition cache_matches :: "acpi_table_header \<Rightarrow> int \<Rightarrow> s32 \<Rightarrow> bool" where
  "cache_matches t c type \<longleftrightarrow>
     cache_flags t c AND ACPI_PPTT_CACHE_TYPE_VALID \<noteq> 0
     \<and> ucast (cache_attributes t c AND ACPI_PPTT_MASK_CACHE_TYPE) = type"

text \<open>
  The records of the chain that starts at \<open>c\<close> which match a query for
  \<open>(level, type)\<close>, in the order of the chain; the record \<open>c\<close> lies one level
  above \<open>below\<close>, and each link leads one level further.
\<close>

fun chain_matches ::
  "nat \<Rightarrow> acpi_table_header \<Rightarrow> s32 \<Rightarrow> int \<Rightarrow> s32 \<Rightarrow> s32 \<Rightarrow> int list" where
  "chain_matches 0 t below c level type = []"
| "chain_matches (Suc n) t below c level type =
     (if below + 1 = level \<and> cache_matches t c type then [c] else [])
     @ (case fetch_pptt_cache t (cache_next_level_of_cache t c) of
          None \<Rightarrow> []
        | Some next_cache \<Rightarrow> chain_matches n t (below + 1) next_cache level type)"

text \<open>
  The private resources of a processor record from index \<open>resource\<close> on, in
  the order of the index, up to the first one that does not resolve.
\<close>

function node_resources :: "acpi_table_header \<Rightarrow> int \<Rightarrow> s32 \<Rightarrow> int list" where
  "node_resources t node resource =
     (case acpi_get_pptt_resource t node resource of
        None \<Rightarrow> []
      | Some res \<Rightarrow> res # node_resources t node (resource + 1))"
  by pat_completeness auto
termination
proof (relation "measure (\<lambda>(t, node, resource).
          unat (proc_number_of_priv_resources t node) - unat resource)")
  fix t :: acpi_table_header and node :: int and resource :: s32 and res :: int
  assume "acpi_get_pptt_resource t node resource = Some res"
  then have "resource < proc_number_of_priv_resources t node"
    by (auto simp: acpi_get_pptt_resource_def split: if_splits)
  then have below: "unat resource < unat (proc_number_of_priv_resources t node)"
    by (simp add: word_less_nat_alt)
  moreover have "unat (proc_number_of_priv_resources t node) < 2 ^ 32"
    using unsigned_less [of "proc_number_of_priv_resources t node"] by simp
  ultimately have "unat resource + unat (1 :: s32) < 2 ^ LENGTH(32)"
    by simp
  then have "unat (resource + 1) = unat resource + 1"
    by (simp add: unat_add_lem [THEN iffD1])
  with below show "((t, node, resource + 1), (t, node, resource))
      \<in> measure (\<lambda>(t, node, resource).
            unat (proc_number_of_priv_resources t node) - unat resource)"
    by simp
qed simp

declare node_resources.simps [simp del]

text \<open>
  The depth one resource of a processor record contributes when the walk
  starts from \<open>starting_level\<close>: the starting level plus the number of records
  of its chain when it is a cache record, and 0 when it is not. The matching
  records it contributes are those of its chain, none when it is not a cache
  record.
\<close>

definition depth_of :: "nat \<Rightarrow> acpi_table_header \<Rightarrow> s32 \<Rightarrow> int \<Rightarrow> s32" where
  "depth_of n t starting_level res =
     (if sub_type t res = ACPI_PPTT_TYPE_CACHE
      then starting_level + word_of_nat (length (cache_chain n t res))
      else 0)"

definition resource_matches ::
  "nat \<Rightarrow> acpi_table_header \<Rightarrow> s32 \<Rightarrow> s32 \<Rightarrow> s32 \<Rightarrow> int \<Rightarrow> int list" where
  "resource_matches n t starting_level level type res =
     (if sub_type t res = ACPI_PPTT_TYPE_CACHE
      then chain_matches n t starting_level res level type
      else [])"

text \<open>
  The depths and the matching records of all resources of a processor record,
  resource after resource.
\<close>

definition node_depths :: "nat \<Rightarrow> acpi_table_header \<Rightarrow> int \<Rightarrow> s32 \<Rightarrow> s32 list" where
  "node_depths n t node starting_level =
     map (depth_of n t starting_level) (node_resources t node 0)"

definition node_matches ::
  "nat \<Rightarrow> acpi_table_header \<Rightarrow> int \<Rightarrow> s32 \<Rightarrow> s32 \<Rightarrow> s32 \<Rightarrow> int list" where
  "node_matches n t node starting_level level type =
     concat (map (resource_matches n t starting_level level type) (node_resources t node 0))"

text \<open>
  What the loops of \<^verbatim>\<open>acpi_pptt_walk_cache\<close> and \<^verbatim>\<open>acpi_find_cache_level\<close>
  maintain. For the walk: \<^verbatim>\<open>*found\<close> is the record assigned last, as long as
  no diagnostic was emitted all assigned records are that one, and every
  assigned record has a valid cache type equal to the requested one. For the
  level finder: \<^verbatim>\<open>number_of_levels\<close> is the largest of the starting level and
  the depths returned so far, as signed numbers.
\<close>

definition walk_state_ok :: "acpi_table_header \<Rightarrow> s32 \<Rightarrow> walk_state \<Rightarrow> bool" where
  "walk_state_ok t type st \<longleftrightarrow>
     found st = (if matched st = [] then None else Some (last (matched st)))
     \<and> (errs st = 0 \<longrightarrow> (\<forall>x \<in> set (matched st). found st = Some x))
     \<and> (\<forall>x \<in> set (matched st).
           cache_flags t x AND ACPI_PPTT_CACHE_TYPE_VALID \<noteq> 0
           \<and> ucast (cache_attributes t x AND ACPI_PPTT_MASK_CACHE_TYPE) = type)"

definition level_state_ok :: "s32 \<Rightarrow> level_state \<Rightarrow> bool" where
  "level_state_ok starting_level ls \<longleftrightarrow>
     sint (number_of_levels ls)
       = Max (insert (sint starting_level) (sint ` set (depths ls)))"

text \<open>
  The write policy and the allocation policy a cache record declares in its
  \<^verbatim>\<open>attributes\<close> byte, in the encoding of \<^verbatim>\<open>struct cacheinfo\<close>.
\<close>

definition write_policy_of :: "u8 \<Rightarrow> u32" where
  "write_policy_of a =
     (if a AND ACPI_PPTT_MASK_WRITE_POLICY = ACPI_PPTT_CACHE_POLICY_WT then CACHE_WRITE_THROUGH
      else CACHE_WRITE_BACK)"

definition allocation_type_of :: "u8 \<Rightarrow> u32" where
  "allocation_type_of a =
     (if a AND ACPI_PPTT_MASK_ALLOCATION_TYPE = ACPI_PPTT_CACHE_READ_ALLOCATE
      then CACHE_READ_ALLOCATE
      else if a AND ACPI_PPTT_MASK_ALLOCATION_TYPE = ACPI_PPTT_CACHE_WRITE_ALLOCATE
      then CACHE_WRITE_ALLOCATE
      else CACHE_READ_ALLOCATE OR CACHE_WRITE_ALLOCATE)"

section \<open>Example tables\<close>

definition store8 :: "int \<Rightarrow> u8 \<Rightarrow> (int \<Rightarrow> u8) \<Rightarrow> (int \<Rightarrow> u8)" where
  "store8 a v m = m(a := v)"

definition store16 :: "int \<Rightarrow> u16 \<Rightarrow> (int \<Rightarrow> u8) \<Rightarrow> (int \<Rightarrow> u8)" where
  "store16 a v m = m(a := ucast v, a + 1 := ucast (drop_bit 8 v))"

definition store32 :: "int \<Rightarrow> u32 \<Rightarrow> (int \<Rightarrow> u8) \<Rightarrow> (int \<Rightarrow> u8)" where
  "store32 a v m = m(a := ucast v, a + 1 := ucast (drop_bit 8 v),
                     a + 2 := ucast (drop_bit 16 v), a + 3 := ucast (drop_bit 24 v))"

text \<open>A processor record at offset \<open>a\<close>; its resource references are stored apart.\<close>

definition put_processor ::
  "int \<Rightarrow> u8 \<Rightarrow> u32 \<Rightarrow> u32 \<Rightarrow> u32 \<Rightarrow> u32 \<Rightarrow> (int \<Rightarrow> u8) \<Rightarrow> (int \<Rightarrow> u8)" where
  "put_processor a len flags parent acpi_id nres m =
     store32 (a + 16) nres (store32 (a + 12) acpi_id (store32 (a + 8) parent
       (store32 (a + 4) flags (store8 (a + 1) len (store8 a ACPI_PPTT_TYPE_PROCESSOR m)))))"

text \<open>A cache record at offset \<open>a\<close>.\<close>

definition put_cache ::
  "int \<Rightarrow> u8 \<Rightarrow> u32 \<Rightarrow> u32 \<Rightarrow> u32 \<Rightarrow> u32 \<Rightarrow> u8 \<Rightarrow> u8 \<Rightarrow> u16 \<Rightarrow> (int \<Rightarrow> u8)
     \<Rightarrow> (int \<Rightarrow> u8)" where
  "put_cache a len flags next_level sz sets assoc attrs line m =
     store16 (a + 22) line (store8 (a + 21) attrs (store8 (a + 20) assoc
       (store32 (a + 16) sets (store32 (a + 12) sz (store32 (a + 8) next_level
         (store32 (a + 4) flags (store8 (a + 1) len (store8 a ACPI_PPTT_TYPE_CACHE m))))))))"

text \<open>
  A package at 36 with an L2 cache (132), and two cores at 60 and 84 below it
  (native ids 10 and 11) that share the L1 data cache at 108. Every validity
  flag of the L1 record is set: 32 KiB, 128 sets, 4 ways, lines of 64 bytes,
  write-through, write-allocate.
\<close>

definition table_topo :: acpi_table_header where
  "table_topo = \<lparr>tbl_length = 156, mem =
      put_cache 132 24 0x10 0 0 0 0 0x08 0
      (put_cache 108 24 0x7F 0 32768 128 4 0x11 64
      (store32 104 108 (put_processor 84 24 0 36 11 1
      (store32 80 108 (put_processor 60 24 0 36 10 1
      (store32 56 132 (put_processor 36 24 1 0 0 1 (\<lambda>_. 0))))))))\<rparr>"


text \<open>
  A table of 200 bytes: processor records at 36 (native id 1) and 56 (native
  id 2, 64 bytes long, child of 36), and zeros from offset 120 on, so that the
  record at 120 has length zero.
\<close>

definition table_B :: acpi_table_header where
  "table_B = \<lparr>tbl_length = 200, mem =
      put_processor 56 64 0 36 2 0 (put_processor 36 20 0 0 1 0 (\<lambda>_. 0))\<rparr>"

text \<open>
  One processor (36) whose only resource is the cache record at 60, which
  names itself as its next level.
\<close>

definition table_cyc :: acpi_table_header where
  "table_cyc = \<lparr>tbl_length = 84, mem =
      put_cache 60 24 0x10 60 0 0 0 0 0
      (store32 56 60 (put_processor 36 24 0 0 0 1 (\<lambda>_. 0)))\<rparr>"

text \<open>
  A leaf processor (36, native id 3) whose parent (56) names itself as its
  parent.
\<close>

definition table_loop :: acpi_table_header where
  "table_loop = \<lparr>tbl_length = 76, mem =
      put_processor 56 20 0 56 0 0 (put_processor 36 20 0 56 3 0 (\<lambda>_. 0))\<rparr>"

text \<open>
  Three processor records in a line: the package at 36, its child at 56, and
  the leaf at 76 (native id 5) below that.
\<close>

definition table_chain :: acpi_table_header where
  "table_chain = \<lparr>tbl_length = 96, mem =
      put_processor 76 20 0 56 5 0 (put_processor 56 20 0 36 0 0
      (put_processor 36 20 1 0 0 0 (\<lambda>_. 0)))\<rparr>"

text \<open>One processor record, at 36, that names itself as its parent.\<close>

definition table_self :: acpi_table_header where
  "table_self = \<lparr>tbl_length = 56, mem = put_processor 36 20 0 36 0 0 (\<lambda>_. 0)\<rparr>"

text \<open>A table whose header declares \<open>2 ^ 32 - 1\<close> bytes, every byte of it 255.\<close>

definition table_huge :: acpi_table_header where
  "table_huge = \<lparr>tbl_length = 0xFFFFFFFF, mem = (\<lambda>_. 0xFF)\<rparr>"

text \<open>
  A cache record (36) that declares only its write policy (write-back), and a
  destination record that holds a read-allocate policy.
\<close>

definition table_wp :: acpi_table_header where
  "table_wp = \<lparr>tbl_length = 60, mem = put_cache 36 24 0x20 0 0 0 0 0 0 (\<lambda>_. 0)\<rparr>"

definition leaf_ra :: cacheinfo where
  "leaf_ra = \<lparr>ci_type = CACHE_TYPE_DATA, ci_level = 1, coherency_line_size = 0,
      number_of_sets = 0, ways_of_associativity = 0, physical_line_partition = 0,
      size = 0, attributes = CACHE_READ_ALLOCATE, firmware_node = None\<rparr>"

section \<open>Unfolding the model on concrete tables\<close>

lemmas layout_defs =
  rd8_def rd16_def rd32_def sub_type_def sub_length_def proc_flags_def proc_parent_def
  proc_acpi_processor_id_def proc_number_of_priv_resources_def cache_flags_def
  cache_next_level_of_cache_def cache_size_def cache_number_of_sets_def
  cache_associativity_def cache_attributes_def cache_line_size_def
  sizeof_acpi_subtable_header_def sizeof_acpi_pptt_processor_def sizeof_acpi_table_pptt_def
  table_end_def

lemmas constant_defs =
  ACPI_PPTT_TYPE_CACHE_def ACPI_PPTT_TYPE_PROCESSOR_def ACPI_PPTT_PHYSICAL_PACKAGE_def
  ACPI_PPTT_SIZE_PROPERTY_VALID_def ACPI_PPTT_NUMBER_OF_SETS_VALID_def
  ACPI_PPTT_ASSOCIATIVITY_VALID_def ACPI_PPTT_ALLOCATION_TYPE_VALID_def
  ACPI_PPTT_CACHE_TYPE_VALID_def ACPI_PPTT_WRITE_POLICY_VALID_def
  ACPI_PPTT_LINE_SIZE_VALID_def ACPI_PPTT_MASK_ALLOCATION_TYPE_def
  ACPI_PPTT_MASK_CACHE_TYPE_def ACPI_PPTT_MASK_WRITE_POLICY_def
  ACPI_PPTT_CACHE_READ_ALLOCATE_def ACPI_PPTT_CACHE_WRITE_ALLOCATE_def
  ACPI_PPTT_CACHE_RW_ALLOCATE_def ACPI_PPTT_CACHE_RW_ALLOCATE_ALT_def
  ACPI_PPTT_CACHE_POLICY_WB_def ACPI_PPTT_CACHE_POLICY_WT_def
  CACHE_WRITE_THROUGH_def CACHE_WRITE_BACK_def CACHE_READ_ALLOCATE_def
  CACHE_WRITE_ALLOCATE_def CACHE_WRITE_POLICY_MASK_def CACHE_ALLOCATE_POLICY_MASK_def
  ENOENT_def

lemmas store_defs = store8_def store16_def store32_def put_processor_def put_cache_def

lemmas fetch_defs =
  fetch_pptt_subtable_def fetch_pptt_subtable_rd_def fetch_pptt_node_def fetch_pptt_cache_def
  acpi_get_pptt_resource_def

lemmas eval_simps = layout_defs constant_defs store_defs fetch_defs Let_def
  word_le_nat_alt word_less_nat_alt word_sless_alt

lemmas scan_simps = acpi_find_processor_node_def acpi_find_processor_node_loop.simps
  acpi_pptt_leaf_node_def acpi_pptt_leaf_node_loop.simps

section \<open>Properties\<close>

subsection \<open>The owning node of a cache\<close>

text \<open>
  C9. \<^verbatim>\<open>update_cache_properties\<close> stores the owning processor node in
  \<^verbatim>\<open>firmware_node\<close> of the destination record whatever the flags of the matched
  cache record are, also when none of them is set.
\<close>

theorem update_cache_properties_firmware_node:
  "firmware_node (update_cache_properties this_leaf t found_cache cpu_node) = cpu_node"
  by (simp add: update_cache_properties_def Let_def)

theorem update_cache_properties_firmware_node_witness:
  "firmware_node (update_cache_properties leaf_ra table_wp 36 (Some 60)) = Some 60"
  using update_cache_properties_firmware_node [of leaf_ra table_wp 36 "Some 60"] .

subsection \<open>Topology tags\<close>

lemma package_id_Some:
  "\<exists>a. acpi_find_processor_package_id t (Some n) level flag = Some a"
proof (induction t "Some n :: int option" level flag arbitrary: n
    rule: acpi_find_processor_package_id.induct)
  case (1 t level flag)
  show ?case
    by (subst acpi_find_processor_package_id.simps) (auto split: option.splits intro: 1)
qed

text \<open>
  C10. Given a processor record, \<^verbatim>\<open>acpi_find_processor_package_id\<close> returns a
  processor record, never \<^verbatim>\<open>NULL\<close>; it returns the record it was given when
  \<^verbatim>\<open>level\<close> is 0, when the flags of the record have a bit of the stop flag,
  and when the parent link does not resolve. Hence \<^verbatim>\<open>topology_get_acpi_cpu_tag\<close>
  never reads a field through \<^verbatim>\<open>NULL\<close>.
\<close>

theorem package_id_never_null:
  "acpi_find_processor_package_id t (Some n) level flag \<noteq> None
   \<and> (level = 0 \<or> proc_flags t n AND flag \<noteq> 0 \<or> fetch_pptt_node t (proc_parent t n) = None
        \<longrightarrow> acpi_find_processor_package_id t (Some n) level flag = Some n)
   \<and> topology_get_acpi_cpu_tag get_acpi_id_for_cpu t cpu level flag
        \<noteq> Some (Inl Null_dereference)"
proof (intro conjI impI)
  show "acpi_find_processor_package_id t (Some n) level flag \<noteq> None"
    using package_id_Some [of t n level flag] by auto
  show "acpi_find_processor_package_id t (Some n) level flag = Some n"
    if "level = 0 \<or> proc_flags t n AND flag \<noteq> 0 \<or> fetch_pptt_node t (proc_parent t n) = None"
    using that by (subst acpi_find_processor_package_id.simps) auto
  show "topology_get_acpi_cpu_tag get_acpi_id_for_cpu t cpu level flag
        \<noteq> Some (Inl Null_dereference)"
  proof (cases "acpi_find_processor_node t (get_acpi_id_for_cpu cpu)")
    case None
    then show ?thesis by (simp add: topology_get_acpi_cpu_tag_def)
  next
    case (Some r)
    show ?thesis
    proof (cases r)
      case None
      with Some show ?thesis by (simp add: topology_get_acpi_cpu_tag_def)
    next
      case (Some leaf)
      obtain a where "acpi_find_processor_package_id t (Some leaf) level flag = Some a"
        using package_id_Some by blast
      with Some \<open>acpi_find_processor_node t (get_acpi_id_for_cpu cpu) = Some r\<close>
      show ?thesis by (simp add: topology_get_acpi_cpu_tag_def)
    qed
  qed
qed

theorem package_id_never_null_witness:
  "fetch_pptt_node table_topo (proc_parent table_topo 36) = None
   \<and> acpi_find_processor_package_id table_topo (Some 36) 1 0 = Some 36
   \<and> acpi_find_processor_package_id table_topo (Some 60) 0 0 = Some 60
   \<and> proc_flags table_topo 36 AND ACPI_PPTT_PHYSICAL_PACKAGE \<noteq> 0
   \<and> acpi_find_processor_package_id table_topo (Some 36) 255 ACPI_PPTT_PHYSICAL_PACKAGE = Some 36
   \<and> topology_get_acpi_cpu_tag (\<lambda>c. 10 + of_nat c) table_topo 0 1 0 = Some (Inr 36)"
proof -
  have p: "fetch_pptt_node table_topo (proc_parent table_topo 36) = None"
    by (simp add: table_topo_def eval_simps)
  have f: "proc_flags table_topo 36 AND ACPI_PPTT_PHYSICAL_PACKAGE \<noteq> 0"
    by (simp add: table_topo_def eval_simps)
  have t: "topology_get_acpi_cpu_tag (\<lambda>c. 10 + of_nat c) table_topo 0 1 0 = Some (Inr 36)"
    by (simp add: topology_get_acpi_cpu_tag_def scan_simps
        acpi_find_processor_package_id.simps table_topo_def eval_simps)
  show ?thesis
    using p f t
      package_id_never_null [of table_topo 36 1 0]
      package_id_never_null [of table_topo 60 0 0]
      package_id_never_null [of table_topo 36 255 ACPI_PPTT_PHYSICAL_PACKAGE]
    by simp
qed

lemma package_id_ascend:
  "acpi_find_processor_package_id t (Some n) level flag = Some (ascend (unat level) t flag n)"
proof (induction t "Some n :: int option" level flag arbitrary: n
    rule: acpi_find_processor_package_id.induct)
  case (1 t level flag)
  show ?case
  proof (cases "level = 0")
    case True
    then show ?thesis
      by (subst acpi_find_processor_package_id.simps) simp
  next
    case False
    then have u: "unat level = Suc (unat (level - 1))"
      by (simp add: unat_minus_one unat_gt_0)
    show ?thesis
    proof (cases "proc_flags t n AND flag \<noteq> 0")
      case True
      with False show ?thesis
        by (subst acpi_find_processor_package_id.simps) (simp add: u)
    next
      case nf: False
      show ?thesis
      proof (cases "fetch_pptt_node t (proc_parent t n)")
        case None
        with False nf show ?thesis
          by (subst acpi_find_processor_package_id.simps) (simp add: u parent_of_def)
      next
        case (Some p)
        from "1.hyps" [OF refl False nf Some] False nf Some show ?thesis
          by (subst acpi_find_processor_package_id.simps) (simp add: u parent_of_def)
      qed
    qed
  qed
qed

lemma ascend_path:
  "\<exists>j \<le> k. ascend k t flag n = (parent_step t ^^ j) n
      \<and> (\<forall>i < j. proc_flags t ((parent_step t ^^ i) n) AND flag = 0
                  \<and> parent_of t ((parent_step t ^^ i) n) \<noteq> None)
      \<and> (j = k \<or> proc_flags t (ascend k t flag n) AND flag \<noteq> 0
            \<or> parent_of t (ascend k t flag n) = None)"
proof (induction k arbitrary: n)
  case 0
  show ?case by simp
next
  case (Suc k)
  show ?case
  proof (cases "proc_flags t n AND flag \<noteq> 0")
    case True
    then show ?thesis by (intro exI [of _ 0]) simp
  next
    case nf: False
    show ?thesis
    proof (cases "parent_of t n")
      case None
      with nf show ?thesis by (intro exI [of _ 0]) simp
    next
      case (Some p)
      from Suc.IH [of p] obtain j where j: "j \<le> k"
        "ascend k t flag p = (parent_step t ^^ j) p"
        "\<forall>i < j. proc_flags t ((parent_step t ^^ i) p) AND flag = 0
                  \<and> parent_of t ((parent_step t ^^ i) p) \<noteq> None"
        "j = k \<or> proc_flags t (ascend k t flag p) AND flag \<noteq> 0
            \<or> parent_of t (ascend k t flag p) = None"
        by blast
      have s: "parent_step t n = p" using Some by (simp add: parent_step_def)
      have up: "(parent_step t ^^ Suc i) n = (parent_step t ^^ i) p" for i
        by (simp add: funpow_swap1 s)
      have a: "ascend (Suc k) t flag n = ascend k t flag p"
        using nf Some by simp
      show ?thesis
      proof (intro exI [of _ "Suc j"] conjI allI impI)
        show "Suc j \<le> Suc k" using j(1) by simp
        show "ascend (Suc k) t flag n = (parent_step t ^^ Suc j) n"
          unfolding a up by (rule j(2))
        show "Suc j = Suc k \<or> proc_flags t (ascend (Suc k) t flag n) AND flag \<noteq> 0
            \<or> parent_of t (ascend (Suc k) t flag n) = None"
          unfolding a using j(4) by simp
      next
        fix i assume "i < Suc j"
        show "proc_flags t ((parent_step t ^^ i) n) AND flag = 0"
        proof (cases i)
          case 0
          with nf show ?thesis by simp
        next
          case (Suc i')
          with \<open>i < Suc j\<close> j(3) show ?thesis unfolding Suc up by simp
        qed
        show "parent_of t ((parent_step t ^^ i) n) \<noteq> None"
        proof (cases i)
          case 0
          with Some show ?thesis by simp
        next
          case (Suc i')
          with \<open>i < Suc j\<close> j(3) show ?thesis unfolding Suc up by simp
        qed
      qed
    qed
  qed
qed

lemma find_loop_sound:
  assumes "acpi_find_processor_node_loop t acpi_cpu_id e = Some r"
  shows "r = Some leaf \<longrightarrow>
           sub_type t leaf = ACPI_PPTT_TYPE_PROCESSOR
           \<and> proc_acpi_processor_id t leaf = acpi_cpu_id
           \<and> acpi_pptt_leaf_node t leaf = Some True"
proof (rule acpi_find_processor_node_loop.raw_induct
    [where P = "\<lambda>t acpi_cpu_id e r. r = Some leaf \<longrightarrow>
           sub_type t leaf = ACPI_PPTT_TYPE_PROCESSOR
           \<and> proc_acpi_processor_id t leaf = acpi_cpu_id
           \<and> acpi_pptt_leaf_node t leaf = Some True", OF _ assms], goal_cases)
  case (1 loop t acpi_cpu_id e r)
  show ?case
  proof
    assume r: "r = Some leaf"
    from 1(2) r 1(1) show "sub_type t leaf = ACPI_PPTT_TYPE_PROCESSOR
           \<and> proc_acpi_processor_id t leaf = acpi_cpu_id
           \<and> acpi_pptt_leaf_node t leaf = Some True"
      by (auto split: if_splits option.splits)
  qed
qed

text \<open>
  C4. When the lookup finds the leaf processor record of the CPU, that record
  is a leaf processor record carrying the requested native id. The tag for
  level 0 is that native id. The tag for a level above 0 is the byte offset of
  the record the ascent from the leaf ends at: the record reached over parent
  links, through records that do not carry the stop flag, after as many hops
  as the level says, or fewer when a record with the stop flag or one without
  a parent is met first. Two CPUs whose ascents end at the same record get the
  same tag.
\<close>

theorem topology_tag_value:
  assumes "acpi_find_processor_node t (get_acpi_id_for_cpu cpu) = Some (Some leaf)"
  shows "sub_type t leaf = ACPI_PPTT_TYPE_PROCESSOR
       \<and> acpi_pptt_leaf_node t leaf = Some True
       \<and> proc_acpi_processor_id t leaf = get_acpi_id_for_cpu cpu
       \<and> (level = 0 \<longrightarrow>
            topology_get_acpi_cpu_tag get_acpi_id_for_cpu t cpu level flag
              = Some (Inr (proc_acpi_processor_id t leaf)))
       \<and> (0 <s level \<longrightarrow>
            topology_get_acpi_cpu_tag get_acpi_id_for_cpu t cpu level flag
              = Some (Inr (word_of_int (ascend (unat level) t flag leaf))))
       \<and> (\<exists>j \<le> unat level.
             ascend (unat level) t flag leaf = (parent_step t ^^ j) leaf
           \<and> (\<forall>i < j. proc_flags t ((parent_step t ^^ i) leaf) AND flag = 0
                       \<and> parent_of t ((parent_step t ^^ i) leaf) \<noteq> None)
           \<and> (j = unat level
                \<or> proc_flags t (ascend (unat level) t flag leaf) AND flag \<noteq> 0
                \<or> parent_of t (ascend (unat level) t flag leaf) = None))
       \<and> (0 <s level
            \<and> acpi_find_processor_node t (get_acpi_id_for_cpu cpu') = Some (Some leaf')
            \<and> ascend (unat level) t flag leaf' = ascend (unat level) t flag leaf \<longrightarrow>
            topology_get_acpi_cpu_tag get_acpi_id_for_cpu t cpu' level flag
              = topology_get_acpi_cpu_tag get_acpi_id_for_cpu t cpu level flag)"
proof (intro conjI impI)
  from assms have "acpi_find_processor_node_loop t (get_acpi_id_for_cpu cpu)
      sizeof_acpi_table_pptt = Some (Some leaf)"
    by (simp add: acpi_find_processor_node_def)
  from find_loop_sound [OF this, of leaf]
  show "sub_type t leaf = ACPI_PPTT_TYPE_PROCESSOR"
    and "acpi_pptt_leaf_node t leaf = Some True"
    and "proc_acpi_processor_id t leaf = get_acpi_id_for_cpu cpu"
    by simp_all
next
  assume "level = 0"
  with assms show "topology_get_acpi_cpu_tag get_acpi_id_for_cpu t cpu level flag
          = Some (Inr (proc_acpi_processor_id t leaf))"
    by (simp add: topology_get_acpi_cpu_tag_def package_id_ascend)
next
  assume "0 <s level"
  then have "level \<noteq> 0" by auto
  with assms show "topology_get_acpi_cpu_tag get_acpi_id_for_cpu t cpu level flag
          = Some (Inr (word_of_int (ascend (unat level) t flag leaf)))"
    by (simp add: topology_get_acpi_cpu_tag_def package_id_ascend)
next
  show "\<exists>j \<le> unat level.
             ascend (unat level) t flag leaf = (parent_step t ^^ j) leaf
           \<and> (\<forall>i < j. proc_flags t ((parent_step t ^^ i) leaf) AND flag = 0
                       \<and> parent_of t ((parent_step t ^^ i) leaf) \<noteq> None)
           \<and> (j = unat level
                \<or> proc_flags t (ascend (unat level) t flag leaf) AND flag \<noteq> 0
                \<or> parent_of t (ascend (unat level) t flag leaf) = None)"
    by (rule ascend_path)
next
  assume h: "0 <s level
       \<and> acpi_find_processor_node t (get_acpi_id_for_cpu cpu') = Some (Some leaf')
       \<and> ascend (unat level) t flag leaf' = ascend (unat level) t flag leaf"
  then have "level \<noteq> 0" by auto
  with assms h
  show "topology_get_acpi_cpu_tag get_acpi_id_for_cpu t cpu' level flag
          = topology_get_acpi_cpu_tag get_acpi_id_for_cpu t cpu level flag"
    by (simp add: topology_get_acpi_cpu_tag_def package_id_ascend)
qed

theorem topology_tag_value_witness:
  "acpi_find_processor_node table_topo 10 = Some (Some 60)
   \<and> acpi_find_processor_node table_topo 11 = Some (Some 84)
   \<and> topology_get_acpi_cpu_tag (\<lambda>c. 10 + of_nat c) table_topo 0 0 0 = Some (Inr 10)
   \<and> ascend (unat (1 :: s32)) table_topo 0 60 = 36
   \<and> ascend (unat (1 :: s32)) table_topo 0 84 = 36
   \<and> topology_get_acpi_cpu_tag (\<lambda>c. 10 + of_nat c) table_topo 0 1 0 = Some (Inr 36)
   \<and> topology_get_acpi_cpu_tag (\<lambda>c. 10 + of_nat c) table_topo 1 1 0 = Some (Inr 36)
   \<and> acpi_find_processor_node table_chain 5 = Some (Some 76)
   \<and> ascend (unat (1 :: s32)) table_chain 0 76 = 56
   \<and> ascend (unat (2 :: s32)) table_chain 0 76 = 36
   \<and> topology_get_acpi_cpu_tag (\<lambda>c. 5) table_chain 0 1 0 = Some (Inr 56)
   \<and> topology_get_acpi_cpu_tag (\<lambda>c. 5) table_chain 0 2 0 = Some (Inr 36)"
proof -
  have l0: "acpi_find_processor_node table_topo ((\<lambda>c. 10 + of_nat c) (0::nat)) = Some (Some 60)"
    by (simp add: scan_simps table_topo_def eval_simps)
  have l1: "acpi_find_processor_node table_topo ((\<lambda>c. 10 + of_nat c) (1::nat)) = Some (Some 84)"
    by (simp add: scan_simps table_topo_def eval_simps)
  have l2: "acpi_find_processor_node table_chain ((\<lambda>c. 5) (0::nat)) = Some (Some 76)"
    by (simp add: scan_simps table_chain_def eval_simps)
  have u: "unat (1 :: s32) = Suc 0" "unat (2 :: s32) = Suc (Suc 0)"
    by simp_all
  have a: "ascend (unat (1 :: s32)) table_topo 0 60 = 36"
    "ascend (unat (1 :: s32)) table_topo 0 84 = 36"
    unfolding u by (simp_all add: parent_of_def table_topo_def eval_simps)
  have b: "ascend (unat (1 :: s32)) table_chain 0 76 = 56"
    "ascend (unat (2 :: s32)) table_chain 0 76 = 36"
    unfolding u by (simp_all add: parent_of_def table_chain_def eval_simps)
  have pos: "(0 :: s32) <s 1" "(0 :: s32) <s 2" by (simp_all add: word_sless_alt)
  from l0 l1 l2 a b pos
    topology_tag_value [where t = table_topo and get_acpi_id_for_cpu = "\<lambda>c. 10 + of_nat c"
      and cpu = 0 and leaf = 60 and level = 0 and flag = 0, OF l0]
    topology_tag_value [where t = table_topo and get_acpi_id_for_cpu = "\<lambda>c. 10 + of_nat c"
      and cpu = 0 and leaf = 60 and level = 1 and flag = 0 and cpu' = 1 and leaf' = 84, OF l0]
    topology_tag_value [where t = table_chain and get_acpi_id_for_cpu = "\<lambda>c. 5"
      and cpu = 0 and leaf = 76 and level = 1 and flag = 0, OF l2]
    topology_tag_value [where t = table_chain and get_acpi_id_for_cpu = "\<lambda>c. 5"
      and cpu = 0 and leaf = 76 and level = 2 and flag = 0, OF l2]
  show ?thesis by simp
qed

subsection \<open>The fields of a cache\<close>

lemma and_exp_cases: "(a :: 'a::len word) AND 2 ^ k = 2 ^ k \<or> a AND 2 ^ k = 0"
proof (cases "bit a k")
  case True
  have "a AND 2 ^ k = 2 ^ k"
    by (rule bit_word_eqI) (use True in \<open>auto simp: bit_and_iff bit_exp_iff\<close>)
  then show ?thesis ..
next
  case False
  have "a AND 2 ^ k = 0"
    by (rule bit_word_eqI) (use False in \<open>auto simp: bit_and_iff bit_exp_iff\<close>)
  then show ?thesis ..
qed

lemma and_16_cases: "(a :: u8) AND 0x10 = 0x10 \<or> a AND 0x10 = 0"
  using and_exp_cases [of a 4] by simp

lemma and_3_cases: "(a :: u8) AND 3 = 0 \<or> a AND 3 = 1 \<or> a AND 3 = 2 \<or> a AND 3 = 3"
proof -
  have "a AND 3 = take_bit 2 a"
    by (simp add: take_bit_eq_mask mask_eq_exp_minus_1)
  moreover have "take_bit 2 (unat a) < 2 ^ 2"
    by (rule take_bit_nat_less_exp)
  ultimately have "unat (a AND 3) < 4"
    by (simp add: unsigned_take_bit_eq)
  then have "unat (a AND 3) = 0 \<or> unat (a AND 3) = 1 \<or> unat (a AND 3) = 2 \<or> unat (a AND 3) = 3"
    by arith
  then show ?thesis
    by (simp add: word_unat_eq_iff)
qed

lemma write_policy_switch:
  "(let p = a AND ACPI_PPTT_MASK_WRITE_POLICY
    in if p = ACPI_PPTT_CACHE_POLICY_WT then l\<lparr>attributes := CACHE_WRITE_THROUGH\<rparr>
       else if p = ACPI_PPTT_CACHE_POLICY_WB then l\<lparr>attributes := CACHE_WRITE_BACK\<rparr>
       else l)
   = l\<lparr>attributes := write_policy_of a\<rparr>"
  using and_16_cases [of a]
  by (auto simp: write_policy_of_def Let_def ACPI_PPTT_MASK_WRITE_POLICY_def
      ACPI_PPTT_CACHE_POLICY_WT_def ACPI_PPTT_CACHE_POLICY_WB_def)

lemma allocation_switch:
  "(let x = a AND ACPI_PPTT_MASK_ALLOCATION_TYPE
    in if x = ACPI_PPTT_CACHE_READ_ALLOCATE
       then l\<lparr>attributes := attributes l OR CACHE_READ_ALLOCATE\<rparr>
       else if x = ACPI_PPTT_CACHE_WRITE_ALLOCATE
       then l\<lparr>attributes := attributes l OR CACHE_WRITE_ALLOCATE\<rparr>
       else if x = ACPI_PPTT_CACHE_RW_ALLOCATE \<or> x = ACPI_PPTT_CACHE_RW_ALLOCATE_ALT
       then l\<lparr>attributes := attributes l OR (CACHE_READ_ALLOCATE OR CACHE_WRITE_ALLOCATE)\<rparr>
       else l)
   = l\<lparr>attributes := attributes l OR allocation_type_of a\<rparr>"
  using and_3_cases [of a]
  by (auto simp: allocation_type_of_def Let_def ACPI_PPTT_MASK_ALLOCATION_TYPE_def
      ACPI_PPTT_CACHE_READ_ALLOCATE_def ACPI_PPTT_CACHE_WRITE_ALLOCATE_def
      ACPI_PPTT_CACHE_RW_ALLOCATE_def ACPI_PPTT_CACHE_RW_ALLOCATE_ALT_def)

lemma update_cache_properties_eq:
  "update_cache_properties l t c n =
     l\<lparr>firmware_node := n,
       size := (if cache_flags t c AND ACPI_PPTT_SIZE_PROPERTY_VALID \<noteq> 0
                then cache_size t c else size l),
       coherency_line_size := (if cache_flags t c AND ACPI_PPTT_LINE_SIZE_VALID \<noteq> 0
                then ucast (cache_line_size t c) else coherency_line_size l),
       number_of_sets := (if cache_flags t c AND ACPI_PPTT_NUMBER_OF_SETS_VALID \<noteq> 0
                then cache_number_of_sets t c else number_of_sets l),
       ways_of_associativity := (if cache_flags t c AND ACPI_PPTT_ASSOCIATIVITY_VALID \<noteq> 0
                then ucast (cache_associativity t c) else ways_of_associativity l),
       attributes :=
         (let a = (if cache_flags t c AND ACPI_PPTT_WRITE_POLICY_VALID \<noteq> 0
                   then write_policy_of (cache_attributes t c) else attributes l)
          in if cache_flags t c AND ACPI_PPTT_ALLOCATION_TYPE_VALID \<noteq> 0
             then a OR allocation_type_of (cache_attributes t c) else a)\<rparr>"
  unfolding update_cache_properties_def write_policy_switch allocation_switch
  by (simp add: Let_def)


text \<open>
  C7 (amended). \<^verbatim>\<open>update_cache_properties\<close> gives size, line size, number of
  sets and associativity the value of the cache record when the validity flag
  of the field is set, and leaves them as they were when it is not. Write
  policy and allocation policy share the field \<^verbatim>\<open>attributes\<close>: a valid write
  policy replaces the whole field, a valid allocation type is or-ed into it,
  and the field stays as it was when neither flag is set. With every flag set
  the destination holds exactly the values of the record. Type, level and
  line partition are never written.
\<close>

theorem update_cache_properties_fields:
  "size (update_cache_properties l t c n)
     = (if cache_flags t c AND ACPI_PPTT_SIZE_PROPERTY_VALID \<noteq> 0
        then cache_size t c else size l)
   \<and> coherency_line_size (update_cache_properties l t c n)
     = (if cache_flags t c AND ACPI_PPTT_LINE_SIZE_VALID \<noteq> 0
        then ucast (cache_line_size t c) else coherency_line_size l)
   \<and> number_of_sets (update_cache_properties l t c n)
     = (if cache_flags t c AND ACPI_PPTT_NUMBER_OF_SETS_VALID \<noteq> 0
        then cache_number_of_sets t c else number_of_sets l)
   \<and> ways_of_associativity (update_cache_properties l t c n)
     = (if cache_flags t c AND ACPI_PPTT_ASSOCIATIVITY_VALID \<noteq> 0
        then ucast (cache_associativity t c) else ways_of_associativity l)
   \<and> attributes (update_cache_properties l t c n)
     = (if cache_flags t c AND ACPI_PPTT_WRITE_POLICY_VALID \<noteq> 0
        then if cache_flags t c AND ACPI_PPTT_ALLOCATION_TYPE_VALID \<noteq> 0
             then write_policy_of (cache_attributes t c)
                    OR allocation_type_of (cache_attributes t c)
             else write_policy_of (cache_attributes t c)
        else if cache_flags t c AND ACPI_PPTT_ALLOCATION_TYPE_VALID \<noteq> 0
             then attributes l OR allocation_type_of (cache_attributes t c)
             else attributes l)
   \<and> ci_type (update_cache_properties l t c n) = ci_type l
   \<and> ci_level (update_cache_properties l t c n) = ci_level l
   \<and> physical_line_partition (update_cache_properties l t c n) = physical_line_partition l"
  unfolding update_cache_properties_eq by (simp add: Let_def)

theorem update_cache_properties_fields_witness:
  "cache_flags table_topo 108 = 0x7F
   \<and> update_cache_properties leaf_ra table_topo 108 (Some 60)
     = \<lparr>ci_type = CACHE_TYPE_DATA, ci_level = 1, coherency_line_size = 64,
        number_of_sets = 128, ways_of_associativity = 4, physical_line_partition = 0,
        size = 32768, attributes = CACHE_WRITE_THROUGH OR CACHE_WRITE_ALLOCATE,
        firmware_node = Some 60\<rparr>
   \<and> cache_flags table_wp 36 = ACPI_PPTT_WRITE_POLICY_VALID
   \<and> size (update_cache_properties leaf_ra table_wp 36 (Some 60)) = size leaf_ra
   \<and> attributes (update_cache_properties leaf_ra table_wp 36 (Some 60)) = CACHE_WRITE_BACK"
proof -
  have f: "cache_flags table_topo 108 = 0x7F"
    by (simp add: table_topo_def eval_simps)
  have v: "cache_size table_topo 108 = 32768" "cache_line_size table_topo 108 = 64"
    "cache_number_of_sets table_topo 108 = 128" "cache_associativity table_topo 108 = 4"
    "cache_attributes table_topo 108 = 0x11"
    by (simp_all add: table_topo_def eval_simps)
  have g: "cache_flags table_wp 36 = ACPI_PPTT_WRITE_POLICY_VALID"
    "cache_attributes table_wp 36 = 0"
    by (simp_all add: table_wp_def eval_simps)
  have "update_cache_properties leaf_ra table_topo 108 (Some 60)
     = \<lparr>ci_type = CACHE_TYPE_DATA, ci_level = 1, coherency_line_size = 64,
        number_of_sets = 128, ways_of_associativity = 4, physical_line_partition = 0,
        size = 32768, attributes = CACHE_WRITE_THROUGH OR CACHE_WRITE_ALLOCATE,
        firmware_node = Some 60\<rparr>"
    using update_cache_properties_fields [of leaf_ra table_topo 108 "Some 60"]
    by (intro cacheinfo.equality)
       (simp_all add: f v leaf_ra_def write_policy_of_def allocation_type_of_def constant_defs,
        simp_all add: update_cache_properties_eq)
  moreover have "size (update_cache_properties leaf_ra table_wp 36 (Some 60)) = size leaf_ra"
    "attributes (update_cache_properties leaf_ra table_wp 36 (Some 60)) = CACHE_WRITE_BACK"
    using update_cache_properties_fields [of leaf_ra table_wp 36 "Some 60"]
    by (simp_all add: g leaf_ra_def write_policy_of_def constant_defs)
  ultimately show ?thesis using f g by simp
qed

text \<open>
  C7 as stated fails: the record at 36 of \<open>table_wp\<close> declares a write policy
  and no allocation type, and the read-allocate policy of the destination is
  lost.
\<close>

theorem update_cache_properties_drops_allocation:
  "cache_flags table_wp 36 AND ACPI_PPTT_ALLOCATION_TYPE_VALID = 0
   \<and> attributes leaf_ra AND CACHE_ALLOCATE_POLICY_MASK = CACHE_READ_ALLOCATE
   \<and> attributes (update_cache_properties leaf_ra table_wp 36 (Some 60))
        AND CACHE_ALLOCATE_POLICY_MASK = 0"
  by (simp add: update_cache_properties_def leaf_ra_def table_wp_def eval_simps)

subsection \<open>The resolver\<close>

text \<open>
  What holds of \<^verbatim>\<open>fetch_pptt_subtable\<close>: every byte it reads through
  \<^verbatim>\<open>entry\<close> lies inside the table, and as long as the sum of the reference and
  the record length fits into 32 bits, it returns \<^verbatim>\<open>NULL\<close> exactly when one of
  the three bounds is violated.
\<close>

lemma fetch_pptt_subtable_reads_in_table:
  "a \<in> set (snd (fetch_pptt_subtable_rd t pptt_ref)) \<Longrightarrow> 0 \<le> a \<and> a < uint (tbl_length t)"
  by (auto simp: fetch_pptt_subtable_rd_def sizeof_acpi_subtable_header_def Let_def
      split: if_splits)

lemma fetch_pptt_subtable_None_iff:
  assumes "uint pptt_ref + uint (sub_length t (uint pptt_ref)) < 2 ^ 32"
  shows "fetch_pptt_subtable t pptt_ref = None \<longleftrightarrow>
     uint pptt_ref < sizeof_acpi_subtable_header
     \<or> uint pptt_ref + sizeof_acpi_subtable_header > uint (tbl_length t)
     \<or> uint pptt_ref + uint (sub_length t (uint pptt_ref)) > uint (tbl_length t)"
proof -
  have "uint (pptt_ref + ucast (sub_length t (uint pptt_ref)))
      = uint pptt_ref + uint (sub_length t (uint pptt_ref))"
    using assms by (simp add: uint_word_ariths uint_up_ucast is_up take_bit_int_eq_self)
  then show ?thesis
    by (auto simp: fetch_pptt_subtable_def fetch_pptt_subtable_rd_def Let_def word_less_def
        word_le_def)
qed

text \<open>
  C1. The resolver is to return \<^verbatim>\<open>NULL\<close> whenever the record at the reference
  ends behind the table. In a table of \<open>2 ^ 32 - 1\<close> bytes the record at
  reference \<open>2 ^ 32 - 3\<close> with length 255 ends 252 bytes behind the table,
  but the \<^verbatim>\<open>u32\<close> sum wraps to 252 and the record is returned.
\<close>

theorem fetch_pptt_subtable_wraps:
  "fetch_pptt_subtable table_huge 0xFFFFFFFD = Some 4294967293
   \<and> uint (0xFFFFFFFD :: u32) + uint (sub_length table_huge 4294967293)
       > uint (tbl_length table_huge)"
  by (simp add: table_huge_def eval_simps)

subsection \<open>The leaf test\<close>

lemma leaf_loop_entries:
  assumes "\<forall>q \<in> set (pptt_entries_from t e). sub_length t q \<noteq> 0"
  shows "acpi_pptt_leaf_node_loop t node_entry e
           = Some (\<forall>q \<in> set (pptt_entries_from t e).
                \<not> (sub_type t q = ACPI_PPTT_TYPE_PROCESSOR \<and> proc_parent t q = node_entry))"
  using assms
proof (induction t e rule: pptt_entries_from.induct)
  case (1 t e)
  show ?case
  proof (cases "e + sizeof_acpi_subtable_header < table_end t")
    case False
    then show ?thesis
      by (subst acpi_pptt_leaf_node_loop.simps, subst pptt_entries_from.simps) simp
  next
    case True
    from True "1.prems" have nz: "sub_length t e \<noteq> 0"
      by (subst (asm) pptt_entries_from.simps) (auto split: if_splits)
    from True nz have unfold:
      "pptt_entries_from t e = e # pptt_entries_from t (e + uint (sub_length t e))"
      by (subst pptt_entries_from.simps) simp
    with "1.prems" have "\<forall>q \<in> set (pptt_entries_from t (e + uint (sub_length t e))).
        sub_length t q \<noteq> 0"
      by simp
    from "1.IH" [OF True nz this] True show ?thesis
      by (subst acpi_pptt_leaf_node_loop.simps) (auto simp: unfold)
  qed
qed

text \<open>
  C5 (amended). In a table whose scanned records all have a non-zero length,
  \<^verbatim>\<open>acpi_pptt_leaf_node\<close> returns true for \<open>p\<close> if and only if no processor
  record of the table, \<open>p\<close> itself included, has a parent offset equal to the
  byte offset of \<open>p\<close>.
\<close>

theorem leaf_node_iff_no_child:
  assumes "\<forall>q \<in> set (pptt_entries t). sub_length t q \<noteq> 0"
  shows "acpi_pptt_leaf_node t p
           = Some (\<forall>q \<in> set (pptt_entries t).
                sub_type t q = ACPI_PPTT_TYPE_PROCESSOR \<longrightarrow> proc_parent t q \<noteq> word_of_int p)"
  using leaf_loop_entries [of t sizeof_acpi_table_pptt "word_of_int p"] assms
  by (auto simp: acpi_pptt_leaf_node_def pptt_entries_def)

theorem leaf_node_iff_no_child_witness:
  "pptt_entries table_topo = [36, 60, 84, 108, 132]
   \<and> map (sub_length table_topo) (pptt_entries table_topo) = [24, 24, 24, 24, 24]
   \<and> acpi_pptt_leaf_node table_topo 60 = Some True
   \<and> proc_parent table_topo 60 = 36
   \<and> acpi_pptt_leaf_node table_topo 36 = Some False"
proof -
  have e: "pptt_entries table_topo = [36, 60, 84, 108, 132]"
    by (simp add: pptt_entries_def pptt_entries_from.simps table_topo_def eval_simps)
  have l: "\<forall>q \<in> set (pptt_entries table_topo). sub_length table_topo q \<noteq> 0"
    unfolding e by (simp add: table_topo_def eval_simps)
  have v: "sub_type table_topo 36 = ACPI_PPTT_TYPE_PROCESSOR" "proc_parent table_topo 36 = 0"
    "sub_type table_topo 60 = ACPI_PPTT_TYPE_PROCESSOR" "proc_parent table_topo 60 = 36"
    "sub_type table_topo 84 = ACPI_PPTT_TYPE_PROCESSOR" "proc_parent table_topo 84 = 36"
    "sub_type table_topo 108 \<noteq> ACPI_PPTT_TYPE_PROCESSOR"
    "sub_type table_topo 132 \<noteq> ACPI_PPTT_TYPE_PROCESSOR"
    by (simp_all add: table_topo_def eval_simps)
  have m: "map (sub_length table_topo) (pptt_entries table_topo) = [24, 24, 24, 24, 24]"
    unfolding e by (simp add: table_topo_def eval_simps)
  from leaf_node_iff_no_child [OF l, of 60] leaf_node_iff_no_child [OF l, of 36] e m v
  show ?thesis by simp
qed

text \<open>
  C5 as stated fails: the only record of \<open>table_self\<close> is a processor record
  that names itself as its parent. No other record refers to it, and it is
  not a leaf.
\<close>

theorem leaf_node_self_parent:
  "pptt_entries table_self = [36]
   \<and> sub_type table_self 36 = ACPI_PPTT_TYPE_PROCESSOR
   \<and> proc_parent table_self 36 = 36
   \<and> acpi_pptt_leaf_node table_self 36 = Some False"
  by (simp add: pptt_entries_def pptt_entries_from.simps acpi_pptt_leaf_node_def
      acpi_pptt_leaf_node_loop.simps table_self_def eval_simps)

subsection \<open>The processor lookup\<close>

lemma find_loop_step:
  assumes "e + sizeof_acpi_subtable_header < table_end t" and "sub_length t e \<noteq> 0"
    and "sub_type t e \<noteq> ACPI_PPTT_TYPE_PROCESSOR \<or> acpi_cpu_id \<noteq> proc_acpi_processor_id t e
         \<or> acpi_pptt_leaf_node t e = Some False"
  shows "acpi_find_processor_node_loop t acpi_cpu_id e
       = acpi_find_processor_node_loop t acpi_cpu_id (e + uint (sub_length t e))"
  by (rule trans [OF acpi_find_processor_node_loop.simps]) (use assms in auto)

lemma find_loop_reaches:
  "find_scan_reaches t acpi_cpu_id e \<Longrightarrow>
     acpi_find_processor_node t acpi_cpu_id = acpi_find_processor_node_loop t acpi_cpu_id e"
proof (induction rule: find_scan_reaches.induct)
  case start
  show ?case by (simp add: acpi_find_processor_node_def)
next
  case (skip e)
  from skip.IH find_loop_step [of e t acpi_cpu_id] skip.hyps(2-4) show ?case by auto
next
  case (not_leaf e)
  from not_leaf.IH find_loop_step [of e t acpi_cpu_id] not_leaf.hyps(2-4) show ?case by auto
qed

lemma next_entry_iterate_Suc:
  assumes "e = (next_entry t ^^ k) s"
    and "\<forall>j < k. sub_length t ((next_entry t ^^ j) s) \<noteq> 0"
    and "sub_length t e \<noteq> 0"
  shows "\<exists>k'. e + uint (sub_length t e) = (next_entry t ^^ k') s
           \<and> (\<forall>j < k'. sub_length t ((next_entry t ^^ j) s) \<noteq> 0)"
proof (intro exI [of _ "Suc k"] conjI allI impI)
  have "(next_entry t ^^ Suc k) s = next_entry t e"
    using assms(1) by simp
  also have "\<dots> = e + uint (sub_length t e)"
    by (simp only: next_entry_def)
  finally show "e + uint (sub_length t e) = (next_entry t ^^ Suc k) s" ..
  fix j assume "j < Suc k"
  then have "j < k \<or> j = k" by auto
  with assms show "sub_length t ((next_entry t ^^ j) s) \<noteq> 0" by auto
qed

lemma reaches_iterate:
  "find_scan_reaches t acpi_cpu_id e \<Longrightarrow>
     \<exists>k. e = (next_entry t ^^ k) sizeof_acpi_table_pptt
        \<and> (\<forall>j < k. sub_length t ((next_entry t ^^ j) sizeof_acpi_table_pptt) \<noteq> 0)"
proof (induction rule: find_scan_reaches.induct)
  case start
  show ?case by (rule exI [of _ 0]) simp
next
  case (skip e)
  then obtain k where "e = (next_entry t ^^ k) sizeof_acpi_table_pptt"
    "\<forall>j < k. sub_length t ((next_entry t ^^ j) sizeof_acpi_table_pptt) \<noteq> 0"
    by blast
  from next_entry_iterate_Suc [OF this skip.hyps(3)] show ?case .
next
  case (not_leaf e)
  then obtain k where "e = (next_entry t ^^ k) sizeof_acpi_table_pptt"
    "\<forall>j < k. sub_length t ((next_entry t ^^ j) sizeof_acpi_table_pptt) \<noteq> 0"
    by blast
  from next_entry_iterate_Suc [OF this not_leaf.hyps(3)] show ?case .
qed

lemma next_entry_iterate_mono: "j \<le> k \<Longrightarrow> (next_entry t ^^ j) s \<le> (next_entry t ^^ k) s"
proof (induction k)
  case 0
  then show ?case by simp
next
  case (Suc k)
  have "(next_entry t ^^ Suc k) s = next_entry t ((next_entry t ^^ k) s)"
    by simp
  also have "\<dots> = (next_entry t ^^ k) s + uint (sub_length t ((next_entry t ^^ k) s))"
    by (simp only: next_entry_def)
  finally have "(next_entry t ^^ k) s \<le> (next_entry t ^^ Suc k) s"
    by simp
  with Suc show ?case
    by (cases "j = Suc k") auto
qed

text \<open>
  C8. When the scan of \<^verbatim>\<open>acpi_find_processor_node\<close> gets to a record of length
  zero, the function returns \<^verbatim>\<open>NULL\<close>, and the scan gets to no position behind
  that record.
\<close>

theorem find_processor_node_zero_length:
  assumes "find_scan_reaches t acpi_cpu_id e"
    and "e + sizeof_acpi_subtable_header < table_end t"
    and "sub_length t e = 0"
  shows "acpi_find_processor_node t acpi_cpu_id = Some None
       \<and> (\<forall>e'. find_scan_reaches t acpi_cpu_id e' \<longrightarrow> e' \<le> e)"
proof
  from assms(2,3) have "acpi_find_processor_node_loop t acpi_cpu_id e = Some None"
    by (subst acpi_find_processor_node_loop.simps) simp
  with find_loop_reaches [OF assms(1)]
  show "acpi_find_processor_node t acpi_cpu_id = Some None" by simp
  show "\<forall>e'. find_scan_reaches t acpi_cpu_id e' \<longrightarrow> e' \<le> e"
  proof (intro allI impI)
    fix e' assume r: "find_scan_reaches t acpi_cpu_id e'"
    from reaches_iterate [OF assms(1)] obtain k where
      k: "e = (next_entry t ^^ k) sizeof_acpi_table_pptt" by blast
    from reaches_iterate [OF r] obtain k' where
      k': "e' = (next_entry t ^^ k') sizeof_acpi_table_pptt"
      "\<forall>j < k'. sub_length t ((next_entry t ^^ j) sizeof_acpi_table_pptt) \<noteq> 0" by blast
    from k k'(2) assms(3) have "\<not> k < k'" by auto
    then have "k' \<le> k" by simp
    from next_entry_iterate_mono [OF this] k k'(1) show "e' \<le> e" by simp
  qed
qed

theorem find_processor_node_zero_length_witness:
  "find_scan_reaches table_B 1 120
   \<and> 120 + sizeof_acpi_subtable_header < table_end table_B
   \<and> sub_length table_B 120 = 0
   \<and> acpi_find_processor_node table_B 1 = Some None
   \<and> \<not> find_scan_reaches table_B 1 200"
proof -
  have v: "sub_length table_B 36 = 20" "sub_length table_B 56 = 64" "sub_length table_B 120 = 0"
    "proc_acpi_processor_id table_B 56 = 2" "table_end table_B = 200"
    by (simp_all add: table_B_def eval_simps)
  have l: "acpi_pptt_leaf_node table_B 36 = Some False"
    by (simp add: acpi_pptt_leaf_node_def acpi_pptt_leaf_node_loop.simps table_B_def eval_simps)
  have "find_scan_reaches table_B 1 (36 + uint (sub_length table_B 36))"
    using find_scan_reaches.not_leaf [OF find_scan_reaches.start, of table_B 1] l
    by (simp add: v sizeof_acpi_table_pptt_def sizeof_acpi_subtable_header_def)
  then have r56: "find_scan_reaches table_B 1 56" by (simp add: v)
  have "find_scan_reaches table_B 1 (56 + uint (sub_length table_B 56))"
    using find_scan_reaches.skip [OF r56]
    by (simp add: v sizeof_acpi_subtable_header_def)
  then have r: "find_scan_reaches table_B 1 120" by (simp add: v)
  have b: "120 + sizeof_acpi_subtable_header < table_end table_B"
    by (simp add: v sizeof_acpi_subtable_header_def)
  from find_processor_node_zero_length [OF r b v(3)] r b v(3) show ?thesis by auto
qed

subsection \<open>Matches and depths\<close>

lemma walk_state_ok_match:
  assumes "walk_state_ok t type st"
    and "cache_flags t c AND ACPI_PPTT_CACHE_TYPE_VALID \<noteq> 0"
    and "ucast (cache_attributes t c AND ACPI_PPTT_MASK_CACHE_TYPE) = type"
  shows "walk_state_ok t type
           (st\<lparr>errs := (if found st \<noteq> None \<and> Some c \<noteq> found st then errs st + 1 else errs st),
               found := Some c, matched := matched st @ [c]\<rparr>)"
  using assms by (auto simp: walk_state_ok_def split: if_splits)

lemma walk_loop_ok:
  assumes "acpi_pptt_walk_cache_loop t l c st lv ty = Some y"
  shows "walk_state_ok t ty st \<longrightarrow> walk_state_ok t ty (snd y)"
proof (rule acpi_pptt_walk_cache_loop.raw_induct
    [where P = "\<lambda>t l c st lv ty y. walk_state_ok t ty st \<longrightarrow> walk_state_ok t ty (snd y)",
     OF _ assms], goal_cases)
  case (1 walk t l c st lv ty y)
  let ?st = "if l + 1 = lv \<and> cache_flags t c AND ACPI_PPTT_CACHE_TYPE_VALID \<noteq> 0
                \<and> ucast (cache_attributes t c AND ACPI_PPTT_MASK_CACHE_TYPE) = ty
             then st\<lparr>errs := (if found st \<noteq> None \<and> Some c \<noteq> found st
                               then errs st + 1 else errs st),
                     found := Some c, matched := matched st @ [c]\<rparr>
             else st"
  show ?case
  proof
    assume "walk_state_ok t ty st"
    then have ok: "walk_state_ok t ty ?st"
      using walk_state_ok_match [of t ty st c] by simp
    show "walk_state_ok t ty (snd y)"
    proof (cases "fetch_pptt_cache t (cache_next_level_of_cache t c)")
      case None
      with 1(2) have "y = (l + 1, ?st)" by (simp add: Let_def)
      with ok show ?thesis by simp
    next
      case (Some next_cache)
      with 1(2) have "walk t (l + 1) next_cache ?st lv ty = Some y" by (simp add: Let_def)
      from 1(1) [OF this] ok show ?thesis by simp
    qed
  qed
qed

lemma walk_cache_ok:
  "acpi_pptt_walk_cache t l res st lv ty = Some y \<Longrightarrow>
     walk_state_ok t ty st \<longrightarrow> walk_state_ok t ty (snd y)"
  using walk_loop_ok [of t l res st lv ty y]
  by (auto simp: acpi_pptt_walk_cache_def split: if_splits)

lemma level_state_ok_step:
  assumes "level_state_ok s ls"
  shows "level_state_ok s
           \<lparr>number_of_levels = (if number_of_levels ls <s d then d else number_of_levels ls),
            ret = st, depths = depths ls @ [d]\<rparr>"
proof -
  define M where "M = Max (insert (sint s) (sint ` set (depths ls)))"
  have "insert (sint s) (sint ` set (depths ls @ [d]))
      = insert (sint d) (insert (sint s) (sint ` set (depths ls)))"
    by auto
  then have "Max (insert (sint s) (sint ` set (depths ls @ [d]))) = max (sint d) M"
    unfolding M_def by (simp only: Max_insert [OF _ insert_not_empty] finite_insert
        finite_imageI List.finite_set)
  moreover from assms have "sint (number_of_levels ls) = M"
    by (simp add: level_state_ok_def M_def)
  ultimately show ?thesis
    unfolding level_state_ok_def
    by (simp add: word_sless_alt max_def del: set_append)
qed

lemma find_cache_level_loop_ok:
  assumes "acpi_find_cache_level_loop t node s lv ty i ls = Some y"
  shows "walk_state_ok t ty (ret ls) \<and> level_state_ok s ls
       \<longrightarrow> walk_state_ok t ty (ret y) \<and> level_state_ok s y"
proof (rule acpi_find_cache_level_loop.raw_induct
    [where P = "\<lambda>t node s lv ty i ls y. walk_state_ok t ty (ret ls) \<and> level_state_ok s ls
       \<longrightarrow> walk_state_ok t ty (ret y) \<and> level_state_ok s y",
     OF _ assms], goal_cases)
  case (1 loop t node s lv ty i ls y)
  show ?case
  proof
    assume p: "walk_state_ok t ty (ret ls) \<and> level_state_ok s ls"
    show "walk_state_ok t ty (ret y) \<and> level_state_ok s y"
    proof (cases "acpi_get_pptt_resource t node i")
      case None
      with 1(2) p show ?thesis by simp
    next
      case (Some res)
      with 1(2) obtain d st where
        w: "acpi_pptt_walk_cache t s res (ret ls) lv ty = Some (d, st)"
        and l: "loop t node s lv ty (i + 1)
              \<lparr>number_of_levels = (if number_of_levels ls <s d then d else number_of_levels ls),
               ret = st, depths = depths ls @ [d]\<rparr> = Some y"
        by (auto split: option.splits)
      from walk_cache_ok [OF w] p have "walk_state_ok t ty st" by simp
      with 1(1) [OF l] level_state_ok_step [of s ls d st] p show ?thesis by simp
    qed
  qed
qed

lemma find_cache_level_ok:
  assumes "acpi_find_cache_level t node s lv ty = Some r"
  shows "fcl_ret r = (if fcl_matched r = [] then None else Some (last (fcl_matched r)))"
    and "fcl_errs r = 0 \<Longrightarrow> x \<in> set (fcl_matched r) \<Longrightarrow> fcl_ret r = Some x"
    and "x \<in> set (fcl_matched r) \<Longrightarrow> cache_flags t x AND ACPI_PPTT_CACHE_TYPE_VALID \<noteq> 0
           \<and> ucast (cache_attributes t x AND ACPI_PPTT_MASK_CACHE_TYPE) = ty"
    and "sint (fcl_level r) = Max (insert (sint s) (sint ` set (fcl_depths r)))"
proof -
  let ?ls = "\<lparr>number_of_levels = s, ret = \<lparr>found = None, errs = 0, matched = []\<rparr>,
              depths = []\<rparr>"
  from assms obtain y where
    y: "acpi_find_cache_level_loop t node s lv ty 0 ?ls = Some y"
    and r: "r = \<lparr>fcl_ret = found (ret y),
                 fcl_level = (if s <s number_of_levels y then number_of_levels y else s),
                 fcl_errs = errs (ret y), fcl_matched = matched (ret y),
                 fcl_depths = depths y\<rparr>"
    by (auto simp: acpi_find_cache_level_def split: option.splits)
  have "walk_state_ok t ty (ret ?ls)" "level_state_ok s ?ls"
    by (simp_all add: walk_state_ok_def level_state_ok_def)
  with find_cache_level_loop_ok [OF y]
  have w: "walk_state_ok t ty (ret y)" and l: "level_state_ok s y" by simp_all
  from w r show "fcl_ret r = (if fcl_matched r = [] then None else Some (last (fcl_matched r)))"
    by (simp add: walk_state_ok_def)
  from w r show "fcl_errs r = 0 \<Longrightarrow> x \<in> set (fcl_matched r) \<Longrightarrow> fcl_ret r = Some x"
    unfolding walk_state_ok_def by fastforce
  from w r show "x \<in> set (fcl_matched r) \<Longrightarrow>
      cache_flags t x AND ACPI_PPTT_CACHE_TYPE_VALID \<noteq> 0
      \<and> ucast (cache_attributes t x AND ACPI_PPTT_MASK_CACHE_TYPE) = ty"
    by (simp add: walk_state_ok_def)
  define M where "M = Max (insert (sint s) (sint ` set (depths y)))"
  have "sint s \<le> M"
    unfolding M_def by (rule Max_ge) simp_all
  moreover from l have "sint (number_of_levels y) = M"
    by (simp add: level_state_ok_def M_def)
  ultimately have "sint (if s <s number_of_levels y then number_of_levels y else s) = M"
    by (simp add: word_sless_alt)
  with r show "sint (fcl_level r) = Max (insert (sint s) (sint ` set (fcl_depths r)))"
    by (simp add: M_def)
qed

lemma process_node_loop_mono:
  assumes "acpi_process_node_loop t node total_levels = Some k"
  shows "sint total_levels \<le> sint k"
proof (rule acpi_process_node_loop.raw_induct
    [where P = "\<lambda>t node total_levels k. sint total_levels \<le> sint k", OF _ assms], goal_cases)
  case (1 loop t node total_levels k)
  from 1(2) obtain r where
    r: "acpi_find_cache_level t node total_levels 0 0 = Some r"
    by (auto split: option.splits)
  from find_cache_level_ok(4) [OF r] have up: "sint total_levels \<le> sint (fcl_level r)"
    by simp
  show ?case
  proof (cases "fetch_pptt_node t (proc_parent t node)")
    case None
    with 1(2) r up show ?thesis by simp
  next
    case (Some p)
    with 1(2) r have "loop t p (fcl_level r) = Some k" by simp
    from 1(1) [OF this] up show ?thesis by simp
  qed
qed

subsection \<open>Walks that end\<close>

lemma leaf_node_returns:
  assumes "\<forall>q \<in> set (pptt_entries t). sub_length t q \<noteq> 0"
  shows "\<exists>b. acpi_pptt_leaf_node t node = Some b"
  using leaf_loop_entries [of t sizeof_acpi_table_pptt "word_of_int node"] assms
  by (simp add: acpi_pptt_leaf_node_def pptt_entries_def)

lemma find_loop_returns:
  assumes "\<forall>q \<in> set (pptt_entries_from t e). sub_length t q \<noteq> 0"
    and "\<forall>q \<in> set (pptt_entries t). sub_length t q \<noteq> 0"
  shows "\<exists>r. acpi_find_processor_node_loop t acpi_cpu_id e = Some r"
  using assms
proof (induction t e rule: pptt_entries_from.induct)
  case (1 t e)
  show ?case
  proof (cases "e + sizeof_acpi_subtable_header < table_end t")
    case False
    then show ?thesis
      by (subst acpi_find_processor_node_loop.simps) simp
  next
    case True
    from True "1.prems"(1) have nz: "sub_length t e \<noteq> 0"
      by (subst (asm) pptt_entries_from.simps) (auto split: if_splits)
    from True nz have "pptt_entries_from t e = e # pptt_entries_from t (e + uint (sub_length t e))"
      by (subst pptt_entries_from.simps) simp
    with "1.prems"(1) have "\<forall>q \<in> set (pptt_entries_from t (e + uint (sub_length t e))).
        sub_length t q \<noteq> 0"
      by simp
    from "1.IH" [OF True nz this "1.prems"(2)] obtain r where
      r: "acpi_find_processor_node_loop t acpi_cpu_id (e + uint (sub_length t e)) = Some r"
      by blast
    from leaf_node_returns [OF "1.prems"(2)] obtain b where
      b: "acpi_pptt_leaf_node t e = Some b" by blast
    from True nz r b show ?thesis
      by (subst acpi_find_processor_node_loop.simps) auto
  qed
qed

lemma find_processor_node_returns:
  assumes "\<forall>q \<in> set (pptt_entries t). sub_length t q \<noteq> 0"
  shows "\<exists>r. acpi_find_processor_node t acpi_cpu_id = Some r"
  using find_loop_returns [of t sizeof_acpi_table_pptt acpi_cpu_id] assms
  by (simp add: acpi_find_processor_node_def pptt_entries_def)

lemma walk_loop_returns:
  "cache_chain_within n t c \<Longrightarrow> \<exists>r. acpi_pptt_walk_cache_loop t l c st lv ty = Some r"
proof (induction n arbitrary: l c st)
  case 0
  then show ?case by simp
next
  case (Suc n)
  show ?case
  proof (cases "fetch_pptt_cache t (cache_next_level_of_cache t c)")
    case None
    then show ?thesis
      by (subst acpi_pptt_walk_cache_loop.simps) (simp add: Let_def)
  next
    case (Some next_cache)
    with Suc.prems have "cache_chain_within n t next_cache" by simp
    from Suc.IH [OF this] Some show ?thesis
      by (subst acpi_pptt_walk_cache_loop.simps) (simp add: Let_def)
  qed
qed

lemma walk_cache_returns:
  assumes "if sub_type t res = ACPI_PPTT_TYPE_CACHE then cache_chain_within n t res else True"
  shows "\<exists>r. acpi_pptt_walk_cache t l res st lv ty = Some r"
  using assms walk_loop_returns [of n t res l st lv ty]
  by (auto simp: acpi_pptt_walk_cache_def split: if_splits)

lemma find_cache_level_loop_returns:
  "resources_within n t node i \<Longrightarrow>
     \<exists>r. acpi_find_cache_level_loop t node s lv ty i ls = Some r"
proof (induction n t node i arbitrary: ls rule: resources_within.induct)
  case (1 n t node i)
  show ?case
  proof (cases "acpi_get_pptt_resource t node i")
    case None
    then show ?thesis
      by (subst acpi_find_cache_level_loop.simps) simp
  next
    case (Some res)
    with "1.prems" have
      c: "if sub_type t res = ACPI_PPTT_TYPE_CACHE then cache_chain_within n t res else True"
      and r: "resources_within n t node (i + 1)"
      by (subst (asm) resources_within.simps, simp)+
    from walk_cache_returns [OF c] obtain d st where
      w: "acpi_pptt_walk_cache t s res (ret ls) lv ty = Some (d, st)" by fastforce
    from "1.IH" [OF Some r] Some w show ?thesis
      by (subst acpi_find_cache_level_loop.simps) simp
  qed
qed

lemma find_cache_level_returns:
  "resources_within n t node 0 \<Longrightarrow> \<exists>r. acpi_find_cache_level t node s lv ty = Some r"
proof -
  assume "resources_within n t node 0"
  from find_cache_level_loop_returns [OF this] obtain y where
    "acpi_find_cache_level_loop t node s lv ty 0
       \<lparr>number_of_levels = s, ret = \<lparr>found = None, errs = 0, matched = []\<rparr>, depths = []\<rparr>
     = Some y"
    by blast
  then show ?thesis
    by (simp add: acpi_find_cache_level_def)
qed

lemma process_node_loop_returns:
  "ancestors_within k n t node \<Longrightarrow> \<exists>r. acpi_process_node_loop t node total_levels = Some r"
proof (induction k arbitrary: node total_levels)
  case 0
  then show ?case by simp
next
  case (Suc k)
  from Suc.prems have "resources_within n t node 0" by simp
  from find_cache_level_returns [OF this] obtain r where
    r: "acpi_find_cache_level t node total_levels 0 0 = Some r" by blast
  show ?case
  proof (cases "fetch_pptt_node t (proc_parent t node)")
    case None
    with r show ?thesis
      by (subst acpi_process_node_loop.simps) simp
  next
    case (Some p)
    with Suc.prems have "ancestors_within k n t p" by simp
    from Suc.IH [OF this] Some r show ?thesis
      by (subst acpi_process_node_loop.simps) simp
  qed
qed

lemma find_cache_node_loop_returns:
  "ancestors_within k n t node \<Longrightarrow>
     \<exists>r. acpi_find_cache_node_loop t node total_levels lv ty = Some r"
proof (induction k arbitrary: node total_levels)
  case 0
  then show ?case by simp
next
  case (Suc k)
  from Suc.prems have "resources_within n t node 0" by simp
  from find_cache_level_returns [OF this] obtain r where
    r: "acpi_find_cache_level t node total_levels lv ty = Some r" by blast
  show ?case
  proof (cases "fetch_pptt_node t (proc_parent t node)")
    case None
    with r show ?thesis
      by (subst acpi_find_cache_node_loop.simps) simp
  next
    case (Some p)
    with Suc.prems have "ancestors_within k n t p" by simp
    from Suc.IH [OF this] Some r show ?thesis
      by (subst acpi_find_cache_node_loop.simps) simp
  qed
qed

subsection \<open>Walks that do not end\<close>

lemma leaf_loop_stuck:
  assumes "e + sizeof_acpi_subtable_header < table_end t" and "sub_length t e = 0"
    and "\<not> (sub_type t e = ACPI_PPTT_TYPE_PROCESSOR \<and> proc_parent t e = node_entry)"
  shows "acpi_pptt_leaf_node_loop t node_entry e = None"
proof (rule ccontr)
  assume "acpi_pptt_leaf_node_loop t node_entry e \<noteq> None"
  then obtain b where b: "acpi_pptt_leaf_node_loop t node_entry e = Some b" by blast
  have "\<not> (t = t \<and> node_entry = node_entry \<and> e = e)"
  proof (rule acpi_pptt_leaf_node_loop.raw_induct
      [where P = "\<lambda>t' n' e' b'. \<not> (t' = t \<and> n' = node_entry \<and> e' = e)", OF _ b], goal_cases)
    case (1 loop t' n' e' b')
    show ?case
    proof
      assume "t' = t \<and> n' = node_entry \<and> e' = e"
      with 1(2) assms have "loop t node_entry e = Some b'" by simp
      from 1(1) [OF this] show False by simp
    qed
  qed
  then show False by simp
qed

lemma walk_loop_cycle:
  assumes "fetch_pptt_cache t (cache_next_level_of_cache t c) = Some c"
  shows "acpi_pptt_walk_cache_loop t l c st lv ty = None"
proof (rule ccontr)
  assume "acpi_pptt_walk_cache_loop t l c st lv ty \<noteq> None"
  then obtain y where y: "acpi_pptt_walk_cache_loop t l c st lv ty = Some y" by blast
  have "\<not> (t = t \<and> c = c)"
  proof (rule acpi_pptt_walk_cache_loop.raw_induct
      [where P = "\<lambda>t' l' c' st' lv' ty' y'. \<not> (t' = t \<and> c' = c)", OF _ y], goal_cases)
    case (1 walk t' l' c' st' lv' ty' y')
    show ?case
    proof
      assume "t' = t \<and> c' = c"
      with 1(2) assms obtain l'' st'' where "walk t l'' c st'' lv' ty' = Some y'"
        by (simp add: Let_def)
      from 1(1) [OF this] show False by simp
    qed
  qed
  then show False by simp
qed

lemma process_node_loop_cycle:
  assumes "fetch_pptt_node t (proc_parent t node) = Some node"
  shows "acpi_process_node_loop t node total_levels = None"
proof (rule ccontr)
  assume "acpi_process_node_loop t node total_levels \<noteq> None"
  then obtain k where k: "acpi_process_node_loop t node total_levels = Some k" by blast
  have "\<not> (t = t \<and> node = node)"
  proof (rule acpi_process_node_loop.raw_induct
      [where P = "\<lambda>t' n' l' k'. \<not> (t' = t \<and> n' = node)", OF _ k], goal_cases)
    case (1 loop t' n' l' k')
    show ?case
    proof
      assume "t' = t \<and> n' = node"
      with 1(2) assms obtain l'' where "loop t node l'' = Some k'"
        by (auto split: option.splits)
      from 1(1) [OF this] show False by simp
    qed
  qed
  then show False by simp
qed

text \<open>
  C2 as stated fails. In \<open>table_B\<close> the record at 120 has length zero: the
  scan of \<^verbatim>\<open>acpi_pptt_leaf_node\<close> for the processor at 56 never moves on from
  it, and so the lookup of native id 2 never returns. In \<open>table_cyc\<close> a
  cache record names itself as its next level, in \<open>table_loop\<close> a processor
  record names itself as its parent: the walks of \<^verbatim>\<open>acpi_pptt_walk_cache\<close> and
  \<^verbatim>\<open>acpi_process_node\<close> never end.
\<close>

theorem traversals_that_never_return:
  "sub_length table_B 120 = 0
   \<and> acpi_pptt_leaf_node table_B 56 = None
   \<and> acpi_find_processor_node table_B 2 = None
   \<and> acpi_pptt_walk_cache table_cyc 0 60 \<lparr>found = None, errs = 0, matched = []\<rparr> 0 0 = None
   \<and> acpi_find_cache_levels table_cyc 0 = None
   \<and> acpi_find_cache_levels table_loop 3 = None"
proof -
  have z: "sub_length table_B 120 = 0"
    by (simp add: table_B_def eval_simps)
  have "acpi_pptt_leaf_node_loop table_B 56 120 = None"
    by (rule leaf_loop_stuck) (simp_all add: table_B_def eval_simps)
  then have l: "acpi_pptt_leaf_node table_B 56 = None"
    by (simp add: acpi_pptt_leaf_node_def acpi_pptt_leaf_node_loop.simps [of _ _ 36]
        acpi_pptt_leaf_node_loop.simps [of _ _ 56] table_B_def eval_simps)
  have f: "acpi_find_processor_node table_B 2 = None"
    using l
    by (simp add: acpi_find_processor_node_def acpi_find_processor_node_loop.simps [of _ _ 36]
        acpi_find_processor_node_loop.simps [of _ _ 56] table_B_def eval_simps)
  have "fetch_pptt_cache table_cyc (cache_next_level_of_cache table_cyc 60) = Some 60"
    by (simp add: table_cyc_def eval_simps)
  from walk_loop_cycle [OF this]
  have w: "acpi_pptt_walk_cache_loop table_cyc l 60 st lv ty = None" for l st lv ty .
  then have w': "acpi_pptt_walk_cache table_cyc 0 60 \<lparr>found = None, errs = 0, matched = []\<rparr> 0 0
      = None"
    by (simp add: acpi_pptt_walk_cache_def table_cyc_def eval_simps)
  have "acpi_find_processor_node table_cyc 0 = Some (Some 36)"
    "acpi_get_pptt_resource table_cyc 36 0 = Some 60"
    "sub_type table_cyc 60 = ACPI_PPTT_TYPE_CACHE"
    by (simp_all add: scan_simps table_cyc_def eval_simps)
  then have c: "acpi_find_cache_levels table_cyc 0 = None"
    by (simp add: acpi_find_cache_levels_def acpi_process_node_def
        acpi_process_node_loop.simps [of _ 36] acpi_find_cache_level_def
        acpi_find_cache_level_loop.simps [of _ _ _ _ _ 0] acpi_pptt_walk_cache_def w)
  have "fetch_pptt_node table_loop (proc_parent table_loop 56) = Some 56"
    by (simp add: table_loop_def eval_simps)
  from process_node_loop_cycle [OF this]
  have p: "acpi_process_node_loop table_loop 56 lvls = None" for lvls .
  have "acpi_find_processor_node table_loop 3 = Some (Some 36)"
    "acpi_find_cache_level table_loop 36 0 0 0
       = Some \<lparr>fcl_ret = None, fcl_level = 0, fcl_errs = 0, fcl_matched = [], fcl_depths = []\<rparr>"
    "fetch_pptt_node table_loop (proc_parent table_loop 36) = Some 56"
    by (simp_all add: scan_simps acpi_find_cache_level_def acpi_find_cache_level_loop.simps
        table_loop_def eval_simps)
  then have a: "acpi_find_cache_levels table_loop 3 = None"
    by (simp add: acpi_find_cache_levels_def acpi_process_node_def
        acpi_process_node_loop.simps [of _ 36] p)
  from z l f w' c a show ?thesis by simp
qed


text \<open>
  C2 (amended). On a table whose scanned records all have a non-zero length,
  the leaf test, the processor lookup and the topology-tag query return.
  \<^verbatim>\<open>acpi_find_processor_package_id\<close> returns on every table, whatever the
  parent links are, since every hop decrements its level counter. The walk
  of a cache chain returns when the chain ends after finitely many records,
  \<^verbatim>\<open>acpi_find_cache_level\<close> when the chains of all resources of the record do,
  and the ascents of \<^verbatim>\<open>acpi_process_node\<close>, \<^verbatim>\<open>acpi_find_cache_levels\<close> and
  \<^verbatim>\<open>acpi_find_cache_node\<close> when moreover the parent chain ends after finitely
  many records.
\<close>

theorem traversals_return:
  "((\<forall>q \<in> set (pptt_entries t). sub_length t q \<noteq> 0) \<longrightarrow>
        (\<exists>r. acpi_pptt_leaf_node t node = Some r)
      \<and> (\<exists>r. acpi_find_processor_node t acpi_cpu_id = Some r)
      \<and> (\<exists>r. topology_get_acpi_cpu_tag get_acpi_id_for_cpu t cpu level flag = Some r))
   \<and> (\<exists>r. acpi_find_processor_package_id t (Some node) level flag = Some r)
   \<and> ((if sub_type t res = ACPI_PPTT_TYPE_CACHE then cache_chain_within n t res else True) \<longrightarrow>
        (\<exists>r. acpi_pptt_walk_cache t local_level res st level type = Some r))
   \<and> (resources_within n t node 0 \<longrightarrow>
        (\<exists>r. acpi_find_cache_level t node starting_level level type = Some r))
   \<and> (ancestors_within k n t node \<longrightarrow> (\<exists>r. acpi_process_node t node = Some r))
   \<and> ((\<forall>q \<in> set (pptt_entries t). sub_length t q \<noteq> 0)
        \<and> (\<forall>leaf. acpi_find_processor_node t acpi_cpu_id = Some (Some leaf)
              \<longrightarrow> ancestors_within k n t leaf) \<longrightarrow>
        (\<exists>r. acpi_find_cache_levels t acpi_cpu_id = Some r)
      \<and> (\<exists>r. acpi_find_cache_node t acpi_cpu_id ctype level out_node = Some r))"
proof (intro conjI impI)
  assume ok: "\<forall>q \<in> set (pptt_entries t). sub_length t q \<noteq> 0"
  from leaf_node_returns [OF ok] show "\<exists>r. acpi_pptt_leaf_node t node = Some r" .
  from find_processor_node_returns [OF ok]
  show "\<exists>r. acpi_find_processor_node t acpi_cpu_id = Some r" .
  from find_processor_node_returns [OF ok] obtain r where
    "acpi_find_processor_node t (get_acpi_id_for_cpu cpu) = Some r" by blast
  then show "\<exists>r. topology_get_acpi_cpu_tag get_acpi_id_for_cpu t cpu level flag = Some r"
    by (simp add: topology_get_acpi_cpu_tag_def split: option.splits)
next
  show "\<exists>r. acpi_find_processor_package_id t (Some node) level flag = Some r"
    by (rule package_id_Some)
next
  assume "if sub_type t res = ACPI_PPTT_TYPE_CACHE then cache_chain_within n t res else True"
  then show "\<exists>r. acpi_pptt_walk_cache t local_level res st level type = Some r"
    by (rule walk_cache_returns)
next
  assume "resources_within n t node 0"
  then show "\<exists>r. acpi_find_cache_level t node starting_level level type = Some r"
    by (rule find_cache_level_returns)
next
  assume "ancestors_within k n t node"
  then show "\<exists>r. acpi_process_node t node = Some r"
    unfolding acpi_process_node_def by (rule process_node_loop_returns)
next
  assume h: "(\<forall>q \<in> set (pptt_entries t). sub_length t q \<noteq> 0)
        \<and> (\<forall>leaf. acpi_find_processor_node t acpi_cpu_id = Some (Some leaf)
              \<longrightarrow> ancestors_within k n t leaf)"
  then obtain r where r: "acpi_find_processor_node t acpi_cpu_id = Some r"
    using find_processor_node_returns by blast
  show "\<exists>r. acpi_find_cache_levels t acpi_cpu_id = Some r"
  proof (cases r)
    case None
    with r show ?thesis by (simp add: acpi_find_cache_levels_def)
  next
    case (Some leaf)
    with r h have "ancestors_within k n t leaf" by simp
    from process_node_loop_returns [OF this] r Some show ?thesis
      by (simp add: acpi_find_cache_levels_def acpi_process_node_def)
  qed
  show "\<exists>r. acpi_find_cache_node t acpi_cpu_id ctype level out_node = Some r"
  proof (cases r)
    case None
    with r show ?thesis by (simp add: acpi_find_cache_node_def)
  next
    case (Some leaf)
    with r h have "ancestors_within k n t leaf" by simp
    from find_cache_node_loop_returns [OF this] r Some show ?thesis
      by (simp add: acpi_find_cache_node_def)
  qed
qed

theorem traversals_return_witness:
  "pptt_entries table_topo = [36, 60, 84, 108, 132]
   \<and> map (sub_length table_topo) [36, 60, 84, 108, 132] = [24, 24, 24, 24, 24]
   \<and> acpi_find_processor_node table_topo 10 = Some (Some 60)
   \<and> cache_chain_within 1 table_topo 108
   \<and> resources_within 1 table_topo 60 0
   \<and> ancestors_within 2 1 table_topo 60
   \<and> (\<exists>r. acpi_pptt_leaf_node table_topo 60 = Some r)
   \<and> (\<exists>r. acpi_pptt_walk_cache table_topo 0 108 \<lparr>found = None, errs = 0, matched = []\<rparr> 1 0
           = Some r)
   \<and> (\<exists>r. acpi_find_cache_level table_topo 60 0 1 0 = Some r)
   \<and> (\<exists>r. acpi_process_node table_topo 60 = Some r)
   \<and> (\<exists>r. acpi_find_cache_levels table_topo 10 = Some r)
   \<and> (\<exists>r. acpi_find_cache_node table_topo 10 CACHE_TYPE_DATA 1 None = Some r)
   \<and> (\<exists>r. topology_get_acpi_cpu_tag (\<lambda>c. 10 + of_nat c) table_topo 0 1 0 = Some r)"
proof -
  have e: "pptt_entries table_topo = [36, 60, 84, 108, 132]"
    by (simp add: pptt_entries_def pptt_entries_from.simps table_topo_def eval_simps)
  have m: "map (sub_length table_topo) [36, 60, 84, 108, 132] = [24, 24, 24, 24, 24]"
    by (simp add: table_topo_def eval_simps)
  then have ok: "\<forall>q \<in> set (pptt_entries table_topo). sub_length table_topo q \<noteq> 0"
    unfolding e by simp
  have f: "acpi_find_processor_node table_topo 10 = Some (Some 60)"
    by (simp add: scan_simps table_topo_def eval_simps)
  have c: "cache_chain_within 1 table_topo 108"
    by (simp add: table_topo_def eval_simps)
  then have c': "if sub_type table_topo 108 = ACPI_PPTT_TYPE_CACHE
      then cache_chain_within 1 table_topo 108 else True"
    by simp
  have r: "resources_within 1 table_topo 60 0"
    by (simp add: resources_within.simps table_topo_def eval_simps)
  have "ancestors_within (Suc (Suc 0)) 1 table_topo 60"
    by (simp add: resources_within.simps table_topo_def eval_simps)
  then have a: "ancestors_within 2 1 table_topo 60"
    by (simp only: numeral_2_eq_2)
  with f have a': "\<forall>leaf. acpi_find_processor_node table_topo 10 = Some (Some leaf)
      \<longrightarrow> ancestors_within 2 1 table_topo leaf"
    by simp
  from e m f c r a
    traversals_return [where t = table_topo and node = 60 and acpi_cpu_id = 10
      and get_acpi_id_for_cpu = "\<lambda>c. 10 + of_nat c" and cpu = 0 and level = 1 and flag = 0
      and res = 108 and n = 1 and k = 2 and local_level = 0
      and st = "\<lparr>found = None, errs = 0, matched = []\<rparr>" and type = 0 and starting_level = 0
      and ctype = CACHE_TYPE_DATA and out_node = None]
    ok c' a'
  show ?thesis by simp
qed

subsection \<open>The matches and the depths of a processor record\<close>

lemma walk_loop_chain:
  "cache_chain_within n t c \<Longrightarrow>
     \<exists>st'. acpi_pptt_walk_cache_loop t l c st lv ty
              = Some (l + word_of_nat (length (cache_chain n t c)), st')
          \<and> matched st' = matched st @ chain_matches n t l c lv ty"
proof (induction n arbitrary: l c st)
  case 0
  then show ?case by simp
next
  case (Suc n)
  let ?st = "if l + 1 = lv \<and> cache_flags t c AND ACPI_PPTT_CACHE_TYPE_VALID \<noteq> 0
                \<and> ucast (cache_attributes t c AND ACPI_PPTT_MASK_CACHE_TYPE) = ty
             then st\<lparr>errs := (if found st \<noteq> None \<and> Some c \<noteq> found st
                               then errs st + 1 else errs st),
                     found := Some c, matched := matched st @ [c]\<rparr>
             else st"
  have m: "matched ?st = matched st
             @ (if l + 1 = lv \<and> cache_matches t c ty then [c] else [])"
    by (simp add: cache_matches_def)
  show ?case
  proof (cases "fetch_pptt_cache t (cache_next_level_of_cache t c)")
    case None
    then have "acpi_pptt_walk_cache_loop t l c st lv ty = Some (l + 1, ?st)"
      by (subst acpi_pptt_walk_cache_loop.simps) (simp add: Let_def)
    with None m show ?thesis by simp
  next
    case (Some next_cache)
    with Suc.prems have "cache_chain_within n t next_cache" by simp
    from Suc.IH [OF this, of "l + 1" ?st] obtain st' where
      w: "acpi_pptt_walk_cache_loop t (l + 1) next_cache ?st lv ty
            = Some (l + 1 + word_of_nat (length (cache_chain n t next_cache)), st')"
      and m': "matched st' = matched ?st @ chain_matches n t (l + 1) next_cache lv ty"
      by blast
    from Some w have "acpi_pptt_walk_cache_loop t l c st lv ty
        = Some (l + 1 + word_of_nat (length (cache_chain n t next_cache)), st')"
      by (subst acpi_pptt_walk_cache_loop.simps) (simp add: Let_def)
    with Some m m' show ?thesis by simp
  qed
qed

lemma walk_cache_chain:
  assumes "if sub_type t res = ACPI_PPTT_TYPE_CACHE then cache_chain_within n t res else True"
  shows "\<exists>st'. acpi_pptt_walk_cache t s res st lv ty = Some (depth_of n t s res, st')
          \<and> matched st' = matched st @ resource_matches n t s lv ty res"
proof (cases "sub_type t res = ACPI_PPTT_TYPE_CACHE")
  case True
  with assms walk_loop_chain [of n t res s st lv ty] show ?thesis
    by (simp add: acpi_pptt_walk_cache_def depth_of_def resource_matches_def)
next
  case False
  then show ?thesis
    by (simp add: acpi_pptt_walk_cache_def depth_of_def resource_matches_def)
qed

lemma find_cache_level_loop_resources:
  "resources_within n t node i \<Longrightarrow>
     \<exists>y. acpi_find_cache_level_loop t node s lv ty i ls = Some y
        \<and> depths y = depths ls @ map (depth_of n t s) (node_resources t node i)
        \<and> matched (ret y) = matched (ret ls)
            @ concat (map (resource_matches n t s lv ty) (node_resources t node i))"
proof (induction n t node i arbitrary: ls rule: resources_within.induct)
  case (1 n t node i)
  show ?case
  proof (cases "acpi_get_pptt_resource t node i")
    case None
    then show ?thesis
      by (subst acpi_find_cache_level_loop.simps, subst node_resources.simps,
          subst node_resources.simps) simp
  next
    case (Some res)
    with "1.prems" have
      c: "if sub_type t res = ACPI_PPTT_TYPE_CACHE then cache_chain_within n t res else True"
      and r: "resources_within n t node (i + 1)"
      by (subst (asm) resources_within.simps, simp)+
    from walk_cache_chain [OF c, of s "ret ls" lv ty] obtain st where
      w: "acpi_pptt_walk_cache t s res (ret ls) lv ty = Some (depth_of n t s res, st)"
      and m: "matched st = matched (ret ls) @ resource_matches n t s lv ty res"
      by blast
    let ?ls = "\<lparr>number_of_levels =
                  (if number_of_levels ls <s depth_of n t s res then depth_of n t s res
                   else number_of_levels ls),
                ret = st, depths = depths ls @ [depth_of n t s res]\<rparr>"
    from "1.IH" [OF Some r, of ?ls] obtain y where
      y: "acpi_find_cache_level_loop t node s lv ty (i + 1) ?ls = Some y"
      and d: "depths y = depths ?ls @ map (depth_of n t s) (node_resources t node (i + 1))"
      and k: "matched (ret y) = matched (ret ?ls)
            @ concat (map (resource_matches n t s lv ty) (node_resources t node (i + 1)))"
      by blast
    have u: "node_resources t node i = res # node_resources t node (i + 1)"
      using Some by (subst node_resources.simps) simp
    from Some w y have "acpi_find_cache_level_loop t node s lv ty i ls = Some y"
      by (subst acpi_find_cache_level_loop.simps) simp
    with d k m show ?thesis by (simp add: u)
  qed
qed

lemma find_cache_level_resources:
  assumes "resources_within n t node 0"
  shows "\<exists>r. acpi_find_cache_level t node s lv ty = Some r
          \<and> fcl_depths r = node_depths n t node s
          \<and> fcl_matched r = node_matches n t node s lv ty"
proof -
  from find_cache_level_loop_resources [OF assms, of s lv ty
      "\<lparr>number_of_levels = s, ret = \<lparr>found = None, errs = 0, matched = []\<rparr>, depths = []\<rparr>"]
  obtain y where "acpi_find_cache_level_loop t node s lv ty 0
       \<lparr>number_of_levels = s, ret = \<lparr>found = None, errs = 0, matched = []\<rparr>, depths = []\<rparr>
     = Some y"
    and "depths y = map (depth_of n t s) (node_resources t node 0)"
    and "matched (ret y) = concat (map (resource_matches n t s lv ty) (node_resources t node 0))"
    by auto
  then show ?thesis
    by (simp add: acpi_find_cache_level_def node_depths_def node_matches_def)
qed







text \<open>
  C6. When the cache chains of the resources of a processor record end,
  \<^verbatim>\<open>acpi_find_cache_level\<close> returns and leaves in \<^verbatim>\<open>*starting_level\<close> the
  largest of the value it found there and the depths of the resources of the
  record; whenever it returns, the value left is not below the value found.
  When moreover the parent chain ends, the ascent of \<^verbatim>\<open>acpi_process_node\<close>,
  entered at any record with any running total, returns; and whenever it
  returns, its result is not below that total.
\<close>

theorem running_level_never_decreases:
  "(resources_within n t cpu_node 0 \<longrightarrow>
      (\<exists>r. acpi_find_cache_level t cpu_node starting_level level type = Some r
          \<and> sint (fcl_level r)
              = Max (insert (sint starting_level)
                  (sint ` set (node_depths n t cpu_node starting_level)))
          \<and> starting_level \<le>s fcl_level r))
   \<and> (acpi_find_cache_level t cpu_node starting_level level type = Some r \<longrightarrow>
        starting_level \<le>s fcl_level r)
   \<and> (ancestors_within k n t cpu_node \<longrightarrow>
        (\<exists>j. acpi_process_node_loop t cpu_node total_levels = Some j \<and> total_levels \<le>s j))
   \<and> (acpi_process_node_loop t cpu_node total_levels = Some j \<longrightarrow> total_levels \<le>s j)"
proof (intro conjI impI)
  assume "resources_within n t cpu_node 0"
  from find_cache_level_resources [OF this, of starting_level level type] obtain r where
    r: "acpi_find_cache_level t cpu_node starting_level level type = Some r"
    and d: "fcl_depths r = node_depths n t cpu_node starting_level"
    by blast
  from find_cache_level_ok(4) [OF r] d
  have m: "sint (fcl_level r)
      = Max (insert (sint starting_level) (sint ` set (node_depths n t cpu_node starting_level)))"
    by simp
  then have "starting_level \<le>s fcl_level r"
    by (simp add: word_sle_eq)
  with r m show "\<exists>r. acpi_find_cache_level t cpu_node starting_level level type = Some r
          \<and> sint (fcl_level r)
              = Max (insert (sint starting_level)
                  (sint ` set (node_depths n t cpu_node starting_level)))
          \<and> starting_level \<le>s fcl_level r"
    by blast
next
  assume r: "acpi_find_cache_level t cpu_node starting_level level type = Some r"
  from find_cache_level_ok(4) [OF r] show "starting_level \<le>s fcl_level r"
    by (simp add: word_sle_eq)
next
  assume "ancestors_within k n t cpu_node"
  from process_node_loop_returns [OF this, of total_levels] obtain j where
    j: "acpi_process_node_loop t cpu_node total_levels = Some j" by blast
  from process_node_loop_mono [OF j] j
  show "\<exists>j. acpi_process_node_loop t cpu_node total_levels = Some j \<and> total_levels \<le>s j"
    by (simp add: word_sle_eq)
next
  assume "acpi_process_node_loop t cpu_node total_levels = Some j"
  from process_node_loop_mono [OF this] show "total_levels \<le>s j"
    by (simp add: word_sle_eq)
qed

theorem running_level_never_decreases_witness:
  "resources_within 1 table_topo 36 0
   \<and> node_depths 1 table_topo 36 1 = [2]
   \<and> acpi_find_cache_level table_topo 36 1 0 0
     = Some \<lparr>fcl_ret = None, fcl_level = 2, fcl_errs = 0, fcl_matched = [],
         fcl_depths = [2]\<rparr>
   \<and> sint (2 :: s32) = Max (insert (sint (1 :: s32)) (sint ` set [2 :: s32]))
   \<and> (1 :: s32) \<le>s 2
   \<and> ancestors_within 2 1 table_topo 60
   \<and> acpi_process_node_loop table_topo 60 0 = Some 2
   \<and> (0 :: s32) \<le>s 2"
proof -
  have rw: "resources_within 1 table_topo 36 0"
    by (simp add: resources_within.simps table_topo_def eval_simps)
  have nd: "node_depths 1 table_topo 36 1 = [2]"
    by (simp add: node_depths_def node_resources.simps depth_of_def table_topo_def eval_simps)
  have f: "acpi_find_cache_level table_topo 36 1 0 0
     = Some \<lparr>fcl_ret = None, fcl_level = 2, fcl_errs = 0, fcl_matched = [],
         fcl_depths = [2]\<rparr>"
    by (simp add: acpi_find_cache_level_def acpi_find_cache_level_loop.simps
        acpi_pptt_walk_cache_def acpi_pptt_walk_cache_loop.simps table_topo_def eval_simps)
  have "ancestors_within (Suc (Suc 0)) 1 table_topo 60"
    by (simp add: resources_within.simps table_topo_def eval_simps)
  then have a: "ancestors_within 2 1 table_topo 60"
    by (simp only: numeral_2_eq_2)
  have p: "acpi_process_node_loop table_topo 60 0 = Some 2"
    by (simp add: acpi_process_node_loop.simps acpi_find_cache_level_def
        acpi_find_cache_level_loop.simps acpi_pptt_walk_cache_def
        acpi_pptt_walk_cache_loop.simps table_topo_def eval_simps)
  from rw nd f a p
    running_level_never_decreases [where n = 1 and t = table_topo and cpu_node = 36
      and starting_level = 1 and level = 0 and type = 0]
    running_level_never_decreases [where n = 1 and k = 2 and t = table_topo and cpu_node = 60
      and total_levels = 0 and j = 2]
  show ?thesis by simp
qed

end
